theory Spec2Isabelle
  imports Complex_Main "HOL-Library.AList"
begin

section \<open>Python values shared by all modules\<close>

text \<open>
  Exceptions of the Python runtime that the modelled code can raise. A function that can
  raise returns \<open>py_error + 'a\<close>, with \<open>Inl\<close> for the exception.
\<close>

datatype py_error = ValueError | IndexError | KeyError | AttributeError

section \<open>Tools.py: bitmap utilities\<close>

text \<open>A \<open>bitarray\<close> is a sequence of bits; \<open>True\<close> means the second is free.\<close>

type_synonym bitmap = "bool list"

definition secs_per_day :: nat where
  "secs_per_day = 86400"

text \<open>\<open>bitarray.index(True)\<close>: the position of the first set bit; \<open>None\<close> stands for
  the \<open>ValueError\<close> that the library raises when no bit is set.\<close>

fun index_true :: "bitmap \<Rightarrow> nat option" where
  "index_true [] = None"
| "index_true (b # bs) = (if b then Some 0 else map_option Suc (index_true bs))"

text \<open>\<open>get_earliest\<close> catches the \<open>ValueError\<close> and returns Python's \<open>None\<close>.\<close>

definition get_earliest :: "bitmap \<Rightarrow> nat option" where
  "get_earliest bitmap = index_true bitmap"

text \<open>\<open>get_latest\<close> reverses a copy, takes the earliest bit there and returns
  \<open>len(bitmap) - off\<close>. The offset is an index of the reversed copy, hence below the
  length, so the subtraction on naturals is the subtraction of the source.\<close>

definition get_latest :: "bitmap \<Rightarrow> nat option" where
  "get_latest bitmap =
     (let bmp = rev bitmap; off = get_earliest bmp
      in case off of
           Some off' \<Rightarrow> (if 0 \<le> off' then Some (length bitmap - off') else None)
         | None \<Rightarrow> None)"

text \<open>\<open>count(bitmap, True)\<close>.\<close>

definition count_true :: "bitmap \<Rightarrow> nat" where
  "count_true bitmap = length (filter (\<lambda>b. b) bitmap)"

section \<open>Python slices\<close>

text \<open>
  Indices of a slice \<open>xs[a:b]\<close> of a sequence of length \<open>n\<close>, as Python adjusts them: a
  negative index counts from the end, and an index past either end is clamped.
\<close>

definition slice_bound :: "nat \<Rightarrow> int \<Rightarrow> nat" where
  "slice_bound n i = (if i < 0 then nat (max 0 (i + int n)) else min n (nat i))"

text \<open>The half-open range \<open>[lo, hi)\<close> of positions a slice selects (empty when the
  adjusted stop is not above the adjusted start).\<close>

definition slice_range :: "nat \<Rightarrow> int \<Rightarrow> int \<Rightarrow> nat \<times> nat" where
  "slice_range n a b = (let lo = slice_bound n a; hi = slice_bound n b in (lo, max lo hi))"

text \<open>\<open>xs[a:b]\<close>.\<close>

definition slice :: "'a list \<Rightarrow> int \<Rightarrow> int \<Rightarrow> 'a list" where
  "slice xs a b = (case slice_range (length xs) a b of (lo, hi) \<Rightarrow> take (hi - lo) (drop lo xs))"

text \<open>\<open>bmp[a:b] = v\<close> on a bitarray: every selected bit is set to \<open>v\<close>.\<close>

definition slice_fill :: "bitmap \<Rightarrow> int \<Rightarrow> int \<Rightarrow> bool \<Rightarrow> bitmap" where
  "slice_fill bmp a b v =
     (case slice_range (length bmp) a b of
        (lo, hi) \<Rightarrow> take lo bmp @ replicate (hi - lo) v @ drop hi bmp)"

text \<open>\<open>x & y\<close> on bitarrays raises \<open>ValueError\<close> unless both have the same length.\<close>

definition bit_and :: "bitmap \<Rightarrow> bitmap \<Rightarrow> py_error + bitmap" where
  "bit_and x y = (if length x = length y then Inr (map2 (\<and>) x y) else Inl ValueError)"

text \<open>\<open>bitarray.all()\<close>.\<close>

definition all_bits :: "bitmap \<Rightarrow> bool" where
  "all_bits bmp = list_all (\<lambda>b. b) bmp"

section \<open>numpy arrays\<close>

text \<open>
  A power array is a one-row numpy array of floats. Samples are modelled as real numbers:
  the rounding of floating-point arithmetic is not part of the model.
\<close>

type_synonym power = "real list"

definition zeros :: "nat \<Rightarrow> power" where
  "zeros n = replicate n 0"

text \<open>\<open>x += y\<close> on arrays of one shape; numpy raises \<open>ValueError\<close> when the shapes
  differ (all arrays here are of shape \<open>(1, n)\<close>).\<close>

definition np_add :: "power \<Rightarrow> power \<Rightarrow> py_error + power" where
  "np_add x y = (if length x = length y then Inr (map2 (+) x y) else Inl ValueError)"

text \<open>\<open>entry[a:b] += ys\<close>: the selected view and \<open>ys\<close> must have the same length, or
  \<open>ys\<close> must have length one (it is then broadcast over the view); otherwise numpy raises
  \<open>ValueError\<close>.\<close>

definition np_add_slice :: "power \<Rightarrow> int \<Rightarrow> int \<Rightarrow> power \<Rightarrow> py_error + power" where
  "np_add_slice entry a b ys =
     (case slice_range (length entry) a b of
        (lo, hi) \<Rightarrow>
          if hi - lo = length ys
          then Inr (take lo entry @ map2 (+) (take (hi - lo) (drop lo entry)) ys @ drop hi entry)
          else if length ys = 1
          then Inr (take lo entry @ map (\<lambda>x. x + hd ys) (take (hi - lo) (drop lo entry))
                    @ drop hi entry)
          else Inl ValueError)"

text \<open>\<open>np.linspace(a, b, n)\<close>: \<open>n\<close> evenly spaced samples from \<open>a\<close> to \<open>b\<close>, both
  included; a single sample is \<open>a\<close>.\<close>

definition linspace :: "real \<Rightarrow> real \<Rightarrow> nat \<Rightarrow> power" where
  "linspace a b n =
     (if n = 1 then [a] else map (\<lambda>i. a + real i * ((b - a) / real (n - 1))) [0..<n])"

text \<open>Python's \<open>round\<close> of a float to an integer rounds a tie to the even neighbour.

  Floats are modelled by the reals: sums and products are exact, where the code rounds each
  of them to the nearest double. The two agree wherever the operands and the result are
  doubles (integers and dyadic fractions of moderate size, as in all concrete inputs below);
  they can differ in the last bit otherwise, and then \<open>round\<close> of a value next to a tie
  can differ by one.\<close>

definition py_round :: "real \<Rightarrow> int" where
  "py_round x =
     (let f = \<lfloor>x\<rfloor>; r = x - of_int f
      in if r < 1 / 2 then f else if 1 / 2 < r then f + 1 else if even f then f else f + 1)"

section \<open>Random generators\<close>

text \<open>
  The module \<open>random\<close> keeps one process-wide generator, which \<open>random.seed\<close> initialises.
  The generator itself is library code; it is modelled by the infinite stream of raw numbers
  that it yields after seeding. Each library call takes the next raw number and reduces it
  to the documented range of the call.
\<close>

type_synonym rng = "nat \<Rightarrow> nat"

definition rng_tail :: "rng \<Rightarrow> rng" where
  "rng_tail g = (\<lambda>n. g (Suc n))"

text \<open>\<open>random.random()\<close>: a float \<open>k / 2^53\<close> with \<open>0 \<le> k < 2^53\<close>.\<close>

definition random_random :: "rng \<Rightarrow> real \<times> rng" where
  "random_random g = (real (g 0 mod 2 ^ 53) / 2 ^ 53, rng_tail g)"

text \<open>\<open>random.randint(a, b)\<close>: an integer of \<open>[a, b]\<close>; \<open>ValueError\<close> on an empty range.\<close>

definition random_randint :: "int \<Rightarrow> int \<Rightarrow> rng \<Rightarrow> py_error + (int \<times> rng)" where
  "random_randint a b g =
     (if b < a then Inl ValueError else Inr (a + int (g 0) mod (b - a + 1), rng_tail g))"

text \<open>\<open>random.choice(xs)\<close>: an element of \<open>xs\<close>; \<open>IndexError\<close> on an empty list.\<close>

definition random_choice :: "'a list \<Rightarrow> rng \<Rightarrow> py_error + ('a \<times> rng)" where
  "random_choice xs g =
     (if xs = [] then Inl IndexError else Inr (xs ! (g 0 mod length xs), rng_tail g))"

text \<open>
  \<open>np.random\<close> is a second process-wide generator, owned by numpy. Nothing in the
  repository seeds it (\<open>random.seed\<close> does not reach it), so its state at the start of a run
  is an input of its own. It is modelled by the stream of standard-normal samples it yields.
  \<open>np.random.normal(mean, stdev)\<close> raises \<open>ValueError\<close> for a negative \<open>stdev\<close>.
\<close>

type_synonym np_rng = "nat \<Rightarrow> real"

definition np_tail :: "np_rng \<Rightarrow> np_rng" where
  "np_tail g = (\<lambda>n. g (Suc n))"

definition np_random_normal :: "real \<Rightarrow> real \<Rightarrow> np_rng \<Rightarrow> py_error + (real \<times> np_rng)" where
  "np_random_normal mean stdev g =
     (if stdev < 0 then Inl ValueError else Inr (mean + stdev * g 0, np_tail g))"

text \<open>\<open>np.random.normal(mean, stdev, length)\<close>: \<open>length\<close> samples in a row.\<close>

fun np_random_normals :: "real \<Rightarrow> real \<Rightarrow> nat \<Rightarrow> np_rng \<Rightarrow> py_error + (power \<times> np_rng)" where
  "np_random_normals mean stdev 0 g = (if stdev < 0 then Inl ValueError else Inr ([], g))"
| "np_random_normals mean stdev (Suc n) g =
     (case np_random_normal mean stdev g of
        Inl e \<Rightarrow> Inl e
      | Inr (x, g') \<Rightarrow>
          (case np_random_normals mean stdev n g' of
             Inl e \<Rightarrow> Inl e
           | Inr (xs, g'') \<Rightarrow> Inr (x # xs, g'')))"

section \<open>LoadModelComponents.py\<close>

text \<open>The five load-model components with their parameters; the field \<open>dur\<close> of each is
  the fraction of an operation that the component covers.\<close>

datatype component =
    OnOffModel (on: real) (dur: real)
  | LinearModel (dur: real) (sta: real) (end_power: real)
  | OnOffDecayModel (on: real) (add: real) (dec: real) (dur: real)
  | OnOffGrowthModel (bas: real) (sca: real) (stf: real) (dur: real)
  | NoiseModel (dur: real) (low: real) (mean: real) (stdev: real) (high: real)

definition exponential_fct :: "real \<Rightarrow> real \<Rightarrow> real \<Rightarrow> real \<Rightarrow> real" where
  "exponential_fct x a b c = a + b * exp (- c * x)"

definition logarithmic_fct :: "real \<Rightarrow> real \<Rightarrow> real \<Rightarrow> real \<Rightarrow> real" where
  "logarithmic_fct x a b c = a + b * ln (c * x)"

text \<open>
  A loop that may run forever takes fuel: the number of iterations it may still make. A
  function with fuel returns \<open>None\<close> when the fuel runs out, \<open>Some (Inl e)\<close> when the code
  raises \<open>e\<close>, and \<open>Some (Inr v)\<close> when it returns \<open>v\<close>.

  \<open>NoiseModel.bound\<close> redraws a sample until it lies within \<open>[low, high]\<close>.
\<close>

fun bound :: "nat \<Rightarrow> component \<Rightarrow> real \<Rightarrow> np_rng \<Rightarrow> (py_error + (real \<times> np_rng)) option" where
  "bound fuel c val g =
     (if high c < val \<or> val < low c
      then (case fuel of
              0 \<Rightarrow> None
            | Suc fuel' \<Rightarrow>
                (case np_random_normal (mean c) (stdev c) g of
                   Inl e \<Rightarrow> Some (Inl e)
                 | Inr (val', g') \<Rightarrow> bound fuel' c val' g'))
      else Some (Inr (val, g)))"

text \<open>\<open>[self.bound(x) for x in data]\<close>.\<close>

fun bound_all :: "nat \<Rightarrow> component \<Rightarrow> power \<Rightarrow> np_rng \<Rightarrow> (py_error + (power \<times> np_rng)) option" where
  "bound_all fuel c [] g = Some (Inr ([], g))"
| "bound_all fuel c (x # xs) g =
     (case bound fuel c x g of
        None \<Rightarrow> None
      | Some (Inl e) \<Rightarrow> Some (Inl e)
      | Some (Inr (y, g')) \<Rightarrow>
          (case bound_all fuel c xs g' of
             None \<Rightarrow> None
           | Some (Inl e) \<Rightarrow> Some (Inl e)
           | Some (Inr (ys, g'')) \<Rightarrow> Some (Inr (y # ys, g''))))"

text \<open>The method \<open>synthesize(length)\<close> of the five component classes.\<close>

fun component_synthesize ::
  "nat \<Rightarrow> component \<Rightarrow> nat \<Rightarrow> np_rng \<Rightarrow> (py_error + (power \<times> np_rng)) option" where
  "component_synthesize fuel (OnOffModel on_power d) length' g =
     Some (Inr (linspace on_power on_power length', g))"
| "component_synthesize fuel (LinearModel d s e) length' g =
     Some (Inr (linspace s e length', g))"
| "component_synthesize fuel (OnOffDecayModel on_power add_power decay d) length' g =
     Some (Inr (map (\<lambda>x. exponential_fct x on_power (add_power - on_power) decay)
                  (linspace 0 (real length' - 1) length'), g))"
| "component_synthesize fuel (OnOffGrowthModel base scale stretch d) length' g =
     Some (Inr (map (\<lambda>x. logarithmic_fct x base scale stretch)
                  (linspace 1 (real length') length'), g))"
| "component_synthesize fuel (NoiseModel d lo m s hi) length' g =
     (case np_random_normals m s length' g of
        Inl e \<Rightarrow> Some (Inl e)
      | Inr (data, g') \<Rightarrow> bound_all fuel (NoiseModel d lo m s hi) data g')"

section \<open>ApplianceModel.py\<close>

text \<open>
  An appliance: its type name, the candidate definitions of its model folder (each file
  parsed into its \<open>duration\<close> attribute and its list of components), the active definition
  (\<open>usual_duration\<close>, \<open>comps\<close>), the busy bitmap and the cumulative power array.
\<close>

record appliance =
  appliance_type :: string
  models :: "(int \<times> component list) list"
  usual_duration :: int
  comps :: "component list"
  busy :: bitmap
  total_power :: power

text \<open>\<open>pick_another_model\<close>: the active definition is replaced by one drawn with
  \<open>random.choice\<close> from the folder.\<close>

definition pick_another_model :: "appliance \<Rightarrow> rng \<Rightarrow> py_error + (appliance \<times> rng)" where
  "pick_another_model a g =
     (case random_choice (models a) g of
        Inl e \<Rightarrow> Inl e
      | Inr ((d, cs), g') \<Rightarrow> Inr (a\<lparr>usual_duration := d, comps := cs\<rparr>, g'))"

text \<open>The loop of \<open>ApplianceModel.synthesize\<close> over the components: \<open>entry\<close> is the row
  of \<open>this_cycle_power\<close>, \<open>start_offset\<close> the position reached within the operation.
  The number of samples of a component is \<open>round\<close> of the exact product
  \<open>dur * duration\<close>; the code rounds the float product, which for a fraction that is not a
  double (0.575 of 100 seconds, say) can lie just off the tie that the exact product hits.\<close>

fun synthesize_comps ::
  "nat \<Rightarrow> component list \<Rightarrow> int \<Rightarrow> int \<Rightarrow> int \<Rightarrow> power \<Rightarrow> np_rng
     \<Rightarrow> (py_error + (power \<times> np_rng)) option" where
  "synthesize_comps fuel [] offset duration start_offset entry g = Some (Inr (entry, g))"
| "synthesize_comps fuel (c # cs) offset duration start_offset entry g =
     (let end_offset = start_offset + py_round (dur c * real_of_int duration);
          synth_len = end_offset - start_offset
      in if synth_len \<le> 0 \<or> 86400 < synth_len
         then synthesize_comps fuel cs offset duration start_offset entry g
         else (case component_synthesize fuel c (nat synth_len) g of
                 None \<Rightarrow> None
               | Some (Inl e) \<Rightarrow> Some (Inl e)
               | Some (Inr (samples, g')) \<Rightarrow>
                   (case np_add_slice entry (offset + start_offset) (offset + end_offset) samples of
                      Inl e \<Rightarrow> Some (Inl e)
                    | Inr entry' \<Rightarrow>
                        synthesize_comps fuel cs offset duration end_offset entry' g')))"

text \<open>\<open>ApplianceModel.synthesize(offset, duration)\<close> returns \<open>this_cycle_power\<close>; the
  appliance with its updated \<open>total_power\<close> and \<open>busy\<close> is returned with it.\<close>

definition appliance_synthesize ::
  "nat \<Rightarrow> appliance \<Rightarrow> int \<Rightarrow> int \<Rightarrow> np_rng \<Rightarrow> (py_error + (power \<times> appliance \<times> np_rng)) option" where
  "appliance_synthesize fuel a offset duration g =
     (case synthesize_comps fuel (comps a) offset duration 0 (zeros (length (total_power a))) g of
        None \<Rightarrow> None
      | Some (Inl e) \<Rightarrow> Some (Inl e)
      | Some (Inr (this_cycle_power, g')) \<Rightarrow>
          (case np_add (total_power a) this_cycle_power of
             Inl e \<Rightarrow> Some (Inl e)
           | Inr tp \<Rightarrow>
               Some (Inr (this_cycle_power,
                          a\<lparr>total_power := tp,
                            busy := slice_fill (busy a) offset (offset + duration) True\<rparr>,
                          g'))))"

section \<open>ActivityModel.py\<close>

text \<open>
  Appliance objects are shared between activities and mutated by synthesis, so they live in
  a store: a reference is the identity of an \<open>ApplianceModel\<close> object.
\<close>

type_synonym app_ref = nat

type_synonym app_store = "app_ref \<Rightarrow> appliance"

text \<open>
  One row of the \<open>sequence\<close> section in decoded form: name, minimum and maximum duration,
  the flags "involves user" and "must complete before transition", the device id (0 for no
  appliance), the probability of successor a, and the two successors. The decoding itself
  (\<open>int\<close>, \<open>float\<close> and the comparison with \<open>'true'\<close> on the comma-separated fields) is library
  code; a row whose decoding raises \<open>ValueError\<close> is \<open>None\<close> in \<open>state_machine\<close>.
\<close>

record state_row =
  snm :: string
  mn :: int
  mx :: int
  usr :: bool
  fin :: bool
  devID :: int
  pa :: real
  sa :: int
  sb :: int

text \<open>The dictionaries of an \<open>ActivityModel\<close> are association lists in insertion order.
  A binding is \<open>None\<close> until an appliance is bound to the device type.\<close>

record activity =
  activity_type :: string
  required_appliances :: "string list"
  appliance_binding :: "(string \<times> app_ref option) list"
  appliance_lookup :: "(int \<times> string) list"
  state_machine :: "(int \<times> state_row option) list"

text \<open>\<open>len(d)\<close> of a dictionary: the number of its keys.\<close>

definition dict_len :: "('k \<times> 'v) list \<Rightarrow> nat" where
  "dict_len d = length (remdups (map fst d))"

text \<open>\<open>', '.join(names)\<close>.\<close>

fun join_names :: "string list \<Rightarrow> string" where
  "join_names [] = []"
| "join_names [s] = s"
| "join_names (s # t # rest) = s @ '', '' @ join_names (t # rest)"

definition all_bindings_satisfied :: "activity \<Rightarrow> bool \<times> string option" where
  "all_bindings_satisfied act =
     (if length (filter (\<lambda>d. d = None) (map snd (appliance_binding act))) = 0
      then (True, None)
      else (False,
            Some (join_names
                    (filter (\<lambda>s. map_of (appliance_binding act) s = Some None)
                       (remdups (map fst (appliance_binding act)))))))"

text \<open>\<open>self.appliance_binding[self.appliance_lookup[devID]]\<close>: either subscript raises
  \<open>KeyError\<close> on a missing key.\<close>

definition lookup_binding :: "activity \<Rightarrow> int \<Rightarrow> py_error + app_ref option" where
  "lookup_binding act d =
     (case map_of (appliance_lookup act) d of
        None \<Rightarrow> Inl KeyError
      | Some ty \<Rightarrow>
          (case map_of (appliance_binding act) ty of
             None \<Rightarrow> Inl KeyError
           | Some b \<Rightarrow> Inr b))"

text \<open>The variables of the interpreter loop of \<open>process_model\<close>.\<close>

record interp =
  current_state :: int
  total_duration :: int
  schedule :: "(int \<times> (app_ref option \<times> int)) list"
  user_min_time :: "int option"
  user_max_time :: int

text \<open>The duration of a state (\<open>appliance_runtime\<close>): minimum and maximum both 0 without
  a device become 5 and 10; both 0 with a device give the usual duration of the bound
  appliance (\<open>AttributeError\<close> when the binding is \<open>None\<close>); otherwise \<open>random.randint\<close>
  between the smaller and the larger of the two.\<close>

definition state_duration ::
  "activity \<Rightarrow> app_store \<Rightarrow> state_row \<Rightarrow> rng \<Rightarrow> py_error + (int \<times> rng)" where
  "state_duration act store row g =
     (let (mn', mx') = (if mn row = mx row \<and> mx row = 0 \<and> devID row = 0
                        then (5, 10) else (mn row, mx row))
      in if mn' = mx' \<and> mx' = 0 \<and> devID row \<noteq> 0
         then (case lookup_binding act (devID row) of
                 Inl e \<Rightarrow> Inl e
               | Inr None \<Rightarrow> Inl AttributeError
               | Inr (Some r) \<Rightarrow> Inr (usual_duration (store r), g))
         else random_randint (min mn' mx') (max mn' mx') g)"

text \<open>The schedule entry and the advance of the cursor \<open>total_duration\<close>: a state with a
  device is entered into the schedule at the cursor, which then moves by the runtime if the
  state must complete, and by a jitter of 5 to 10 seconds if not.\<close>

definition advance ::
  "activity \<Rightarrow> state_row \<Rightarrow> int \<Rightarrow> interp \<Rightarrow> rng \<Rightarrow> py_error + (interp \<times> rng)" where
  "advance act row appliance_runtime s g =
     (if devID row \<noteq> 0
      then (case lookup_binding act (devID row) of
              Inl e \<Rightarrow> Inl e
            | Inr b \<Rightarrow>
                (let s' = s\<lparr>schedule :=
                              AList.update (total_duration s) (b, appliance_runtime) (schedule s)\<rparr>
                 in if fin row
                    then Inr (s'\<lparr>total_duration := total_duration s + appliance_runtime\<rparr>, g)
                    else (case random_randint 5 10 g of
                            Inl e \<Rightarrow> Inl e
                          | Inr (jitter, g') \<Rightarrow>
                              Inr (s'\<lparr>total_duration := total_duration s + jitter\<rparr>, g'))))
      else Inr (s\<lparr>total_duration := total_duration s + appliance_runtime\<rparr>, g))"

text \<open>The transition: successor a if the draw of \<open>random.random()\<close> is below \<open>pa\<close>,
  successor b otherwise.\<close>

definition next_state :: "state_row \<Rightarrow> rng \<Rightarrow> int \<times> rng" where
  "next_state row g =
     (case random_random g of (u, g') \<Rightarrow> (if u < pa row then sa row else sb row, g'))"

text \<open>The body of the interpreter loop for a decoded row. The debug message between the
  duration and the schedule entry evaluates \<open>self.appliance_lookup[devID]\<close>, which raises
  \<open>KeyError\<close> for an unknown device id.\<close>

definition process_state ::
  "activity \<Rightarrow> app_store \<Rightarrow> state_row \<Rightarrow> interp \<Rightarrow> rng \<Rightarrow> py_error + (interp \<times> rng)" where
  "process_state act store row s g =
     (let s1 = (if user_min_time s = None \<and> usr row
                then s\<lparr>user_min_time := Some (total_duration s)\<rparr> else s)
      in case state_duration act store row g of
           Inl e \<Rightarrow> Inl e
         | Inr (appliance_runtime, g1) \<Rightarrow>
             (case map_of (appliance_lookup act) (devID row) of
                None \<Rightarrow> Inl KeyError
              | Some ty \<Rightarrow>
                  (case advance act row appliance_runtime s1 g1 of
                     Inl e \<Rightarrow> Inl e
                   | Inr (s2, g2) \<Rightarrow>
                       (let s3 = (if usr row
                                  then s2\<lparr>user_max_time := total_duration s2\<rparr> else s2)
                        in case next_state row g2 of
                             (nxt, g3) \<Rightarrow> Inr (s3\<lparr>current_state := nxt\<rparr>, g3)))))"

text \<open>The result of \<open>process_model\<close>: total duration, schedule (\<open>None\<close> for the null
  schedule), first and last offset of the user's involvement.\<close>

type_synonym model_result =
  "int \<times> (int \<times> (app_ref option \<times> int)) list option \<times> int option \<times> int"

text \<open>The interpreter loop. A missing state id makes \<open>state_machine.get\<close> return
  \<open>None\<close>, on which \<open>cmd.replace\<close> raises \<open>AttributeError\<close>; an undecodable row returns
  \<open>(0, None, 0, 0)\<close>. The fuel bounds the number of states visited.\<close>

fun process_loop ::
  "nat \<Rightarrow> activity \<Rightarrow> app_store \<Rightarrow> interp \<Rightarrow> rng \<Rightarrow> (py_error + (model_result \<times> rng)) option" where
  "process_loop fuel act store s g =
     (if current_state s < int (dict_len (state_machine act))
      then (case fuel of
              0 \<Rightarrow> None
            | Suc fuel' \<Rightarrow>
                (case map_of (state_machine act) (current_state s) of
                   None \<Rightarrow> Some (Inl AttributeError)
                 | Some None \<Rightarrow> Some (Inr ((0, None, Some 0, 0), g))
                 | Some (Some row) \<Rightarrow>
                     (case process_state act store row s g of
                        Inl e \<Rightarrow> Some (Inl e)
                      | Inr (s', g') \<Rightarrow> process_loop fuel' act store s' g')))
      else Some (Inr ((total_duration s, Some (schedule s), user_min_time s, user_max_time s), g)))"

text \<open>\<open>for dev in self.appliance_binding.values(): dev.pick_another_model()\<close>.\<close>

fun pick_models :: "app_ref option list \<Rightarrow> app_store \<Rightarrow> rng \<Rightarrow> py_error + (app_store \<times> rng)" where
  "pick_models [] store g = Inr (store, g)"
| "pick_models (None # devs) store g = Inl AttributeError"
| "pick_models (Some r # devs) store g =
     (case pick_another_model (store r) g of
        Inl e \<Rightarrow> Inl e
      | Inr (a, g') \<Rightarrow> pick_models devs (store(r := a)) g')"

definition process_model ::
  "nat \<Rightarrow> activity \<Rightarrow> app_store \<Rightarrow> bool \<Rightarrow> rng
     \<Rightarrow> (py_error + (model_result \<times> app_store \<times> rng)) option" where
  "process_model fuel act store model_varies g =
     (case (if model_varies then pick_models (map snd (appliance_binding act)) store g
            else Inr (store, g)) of
        Inl e \<Rightarrow> Some (Inl e)
      | Inr (store', g') \<Rightarrow>
          (case process_loop fuel act store'
                  \<lparr>current_state = 0, total_duration = 0, schedule = [],
                   user_min_time = None, user_max_time = 0\<rparr> g' of
             None \<Rightarrow> None
           | Some (Inl e) \<Rightarrow> Some (Inl e)
           | Some (Inr (res, g'')) \<Rightarrow> Some (Inr (res, store', g''))))"

section \<open>ActivityModel.synthesize: the slot scheduler\<close>

text \<open>An event \<open>offset;ACT|DEV;name;START|END|ON|OFF\<close> in structured form.\<close>

datatype event_kind = ACT | DEV

datatype transition = START | END | ON | OFF

datatype event = Event (offset: int) (kind: event_kind) (source: string) (trans: transition)

text \<open>
  The state that \<open>synthesize\<close> works on. The first seven fields are shared with the caller:
  the map of named power arrays, the event list, the activity's time-of-run bitmap, the
  user's availability bitmap, the appliance objects and the two generators. The others are
  the local variables of \<open>synthesize\<close>, which it initialises itself. \<open>committed\<close> records the
  debug message "Activity successfully scheduled at offset t=.. for duration of .. samples":
  the start and duration of every window committed so far.
\<close>

record synth_state =
  powers :: "string \<rightharpoonup> power"
  events :: "event list"
  time_of_run :: bitmap
  user_available :: bitmap
  appliances :: app_store
  rng_state :: rng
  np_state :: np_rng
  activity_power :: power
  scheduling_failures :: int
  scheduling_success :: int
  scheduled_activities :: int
  committed :: "(int \<times> int) list"

text \<open>\<open>Tools.visualize_map(bitmap, start_day)[d]\<close> stands in the arguments of debug
  messages and is evaluated whatever the log level: the list has one entry per whole day of
  the bitmap, and the subscript raises \<open>IndexError\<close> beyond it.\<close>

definition visualize_map_row :: "bitmap \<Rightarrow> nat \<Rightarrow> py_error + unit" where
  "visualize_map_row bmp d = (if d < length bmp div secs_per_day then Inr () else Inl IndexError)"

text \<open>The mask of day \<open>d\<close>.\<close>

definition day_filter :: "nat \<Rightarrow> nat \<Rightarrow> bitmap" where
  "day_filter num_days d =
     slice_fill (replicate (num_days * secs_per_day) False)
       (int (d * secs_per_day)) (int ((d + 1) * secs_per_day)) True"

text \<open>The number of instances to attempt on a day. For \<open>runs_per_day\<close> of at least 1 it
  is \<open>round\<close> of the exact sum \<open>runs_per_day + u - 0.5\<close>; the code rounds the float sum, which
  absorbs a draw \<open>u\<close> far smaller than \<open>runs_per_day\<close>.\<close>

definition draw_reps :: "real \<Rightarrow> rng \<Rightarrow> int \<times> rng" where
  "draw_reps runs_per_day g =
     (case random_random g of
        (u, g') \<Rightarrow>
          if 1 \<le> runs_per_day then (py_round (runs_per_day + u - 0.5), g')
          else ((if runs_per_day < u then 0 else 1), g'))"

text \<open>Whether the activity fits at \<open>starting_time\<close>: the snippet of the availability is
  all free and does not pass the end of the horizon.\<close>

definition fits :: "bitmap \<Rightarrow> int \<Rightarrow> int \<Rightarrow> nat \<Rightarrow> bool" where
  "fits availability starting_time duration horizon \<longleftrightarrow>
     all_bits (slice availability starting_time (starting_time + duration))
     \<and> starting_time + duration \<le> int horizon"

text \<open>The random probe: up to \<open>n\<close> draws of a starting time between \<open>lo\<close> and \<open>hi\<close>; the
  result is -1 when none fits.\<close>

fun probe :: "nat \<Rightarrow> bitmap \<Rightarrow> int \<Rightarrow> int \<Rightarrow> int \<Rightarrow> nat \<Rightarrow> rng \<Rightarrow> py_error + (int \<times> rng)" where
  "probe 0 availability lo hi duration horizon g = Inr (- 1, g)"
| "probe (Suc n) availability lo hi duration horizon g =
     (case random_randint lo hi g of
        Inl e \<Rightarrow> Inl e
      | Inr (starting_time, g') \<Rightarrow>
          if fits availability starting_time duration horizon then Inr (starting_time, g')
          else probe n availability lo hi duration horizon g')"

text \<open>The exhaustive scan over \<open>range(earliest_start, latest_start + 1 - duration)\<close>, given
  as the list of its candidates; the result is the value of \<open>starting_time\<close> after the loop.\<close>

fun scan :: "bitmap \<Rightarrow> int list \<Rightarrow> int \<Rightarrow> nat \<Rightarrow> int \<Rightarrow> int" where
  "scan availability [] duration horizon starting_time = starting_time"
| "scan availability (t # ts) duration horizon starting_time =
     (if fits availability t duration horizon then t
      else scan availability ts duration horizon (- 1))"

text \<open>The loop over the schedule of one committed instance: a DEVICE ON event, the
  synthesis of the appliance, the accumulation into the activity's two arrays, a DEVICE OFF
  event, and the running maximum \<open>final\<close> of the OFF offsets.\<close>

fun run_schedule ::
  "nat \<Rightarrow> string \<Rightarrow> int \<Rightarrow> (int \<times> (app_ref option \<times> int)) list \<Rightarrow> synth_state \<Rightarrow> int
     \<Rightarrow> (py_error + (synth_state \<times> int)) option" where
  "run_schedule fuel name starting_time [] st final = Some (Inr (st, final))"
| "run_schedule fuel name starting_time ((app_start, (app, dur')) # rest) st final =
     (case app of
        None \<Rightarrow> Some (Inl AttributeError)
      | Some r \<Rightarrow>
          (case appliance_synthesize fuel (appliances st r) (starting_time + app_start) dur'
                  (np_state st) of
             None \<Rightarrow> None
           | Some (Inl e) \<Rightarrow> Some (Inl e)
           | Some (Inr (app_power, a', g')) \<Rightarrow>
               (case np_add (activity_power st) app_power of
                  Inl e \<Rightarrow> Some (Inl e)
                | Inr ap \<Rightarrow>
                    (case powers st name of
                       None \<Rightarrow> Some (Inl KeyError)
                     | Some p \<Rightarrow>
                         (case np_add p app_power of
                            Inl e \<Rightarrow> Some (Inl e)
                          | Inr p' \<Rightarrow>
                              (let off = starting_time + app_start + dur' - 1;
                                   ty = appliance_type (appliances st r);
                                   st' = st\<lparr>events := events st
                                               @ [Event (starting_time + app_start) DEV ty ON,
                                                  Event off DEV ty OFF],
                                            appliances := (appliances st)(r := a'),
                                            np_state := g',
                                            activity_power := ap,
                                            powers := (powers st)(name \<mapsto> p')\<rparr>
                               in run_schedule fuel name starting_time rest st'
                                    (if final < off then off else final)))))))"

text \<open>The value of \<open>final\<close> after the loop over a schedule: the running maximum of the
  OFF offsets, starting from the initial value.\<close>

definition final_after :: "int \<Rightarrow> (int \<times> (app_ref option \<times> int)) list \<Rightarrow> int \<Rightarrow> int" where
  "final_after t sched final =
     foldl (\<lambda>f (s, (a, d)). if f < t + s + d - 1 then t + s + d - 1 else f) final sched"

text \<open>Lines 277 to 308: the commit of a window found at \<open>starting_time\<close> and the
  emission of the instance.\<close>

definition commit ::
  "nat \<Rightarrow> activity \<Rightarrow> int \<Rightarrow> int \<Rightarrow> (int \<times> (app_ref option \<times> int)) list \<Rightarrow> int option \<Rightarrow> int
     \<Rightarrow> synth_state \<Rightarrow> (py_error + synth_state) option" where
  "commit fuel act starting_time duration appliance_schedule user_earliest user_latest st =
     (let st1 = st\<lparr>scheduled_activities := scheduled_activities st + 1\<rparr>;
          st2 = (case user_earliest of
                   Some ue \<Rightarrow>
                     if 0 < user_latest
                     then st1\<lparr>user_available :=
                                slice_fill (user_available st1) (starting_time + ue)
                                  (starting_time + user_latest) False\<rparr>
                     else st1
                 | None \<Rightarrow> st1);
          st3 = st2\<lparr>time_of_run :=
                      slice_fill (time_of_run st2) starting_time (starting_time + duration) False,
                    committed := committed st2 @ [(starting_time, duration)],
                    events := events st2 @ [Event starting_time ACT (activity_type act) START]\<rparr>
      in case run_schedule fuel (activity_type act) starting_time appliance_schedule st3 0 of
           None \<Rightarrow> None
         | Some (Inl e) \<Rightarrow> Some (Inl e)
         | Some (Inr (st4, final)) \<Rightarrow>
             Some (Inr (st4\<lparr>events := events st4 @ [Event final ACT (activity_type act) END]\<rparr>)))"

text \<open>How one pass of the loop over the repetitions ends.\<close>

datatype 'a loop_step = Break 'a | Continue 'a

text \<open>The availability for a candidate: the activity's legal times on day \<open>d\<close>,
  intersected with the user's availability if the activity involves the user.\<close>

definition availability_of :: "nat \<Rightarrow> nat \<Rightarrow> int option \<Rightarrow> synth_state \<Rightarrow> py_error + bitmap" where
  "availability_of num_days d user_earliest st =
     (case user_earliest of
        Some ue \<Rightarrow>
          (case bit_and (user_available st) (time_of_run st) of
             Inl e \<Rightarrow> Inl e
           | Inr ut \<Rightarrow> bit_and ut (day_filter num_days d))
      | None \<Rightarrow> bit_and (time_of_run st) (day_filter num_days d))"

text \<open>The search for a starting time, once the earliest and latest free seconds are
  known: ten random probes, then the exhaustive scan; -1 when nothing fits.\<close>

definition find_start ::
  "bitmap \<Rightarrow> nat \<Rightarrow> nat \<Rightarrow> int \<Rightarrow> nat \<Rightarrow> rng \<Rightarrow> py_error + (int \<times> rng)" where
  "find_start availability earliest_start latest_start duration horizon g =
     (case probe 10 availability (int earliest_start) (int latest_start + 1 - duration)
             duration horizon g of
        Inl e \<Rightarrow> Inl e
      | Inr (starting_time, g') \<Rightarrow>
          if starting_time = - 1
          then Inr (scan availability [int earliest_start .. int latest_start + 1 - duration - 1]
                      duration horizon starting_time, g')
          else Inr (starting_time, g'))"

text \<open>The part of one repetition after the interpreter has returned a schedule.\<close>

definition place ::
  "nat \<Rightarrow> activity \<Rightarrow> nat \<Rightarrow> nat \<Rightarrow> int \<Rightarrow> (int \<times> (app_ref option \<times> int)) list \<Rightarrow> int option
     \<Rightarrow> int \<Rightarrow> synth_state \<Rightarrow> (py_error + synth_state loop_step) option" where
  "place fuel act num_days d duration appliance_schedule user_earliest user_latest st =
     (case (if user_latest \<noteq> 0 then visualize_map_row (user_available st) d else Inr ()) of
        Inl e \<Rightarrow> Some (Inl e)
      | Inr _ \<Rightarrow>
     (case visualize_map_row (time_of_run st) d of
        Inl e \<Rightarrow> Some (Inl e)
      | Inr _ \<Rightarrow>
     (case availability_of num_days d user_earliest st of
        Inl e \<Rightarrow> Some (Inl e)
      | Inr availability \<Rightarrow>
     (case visualize_map_row availability d of
        Inl e \<Rightarrow> Some (Inl e)
      | Inr _ \<Rightarrow>
     (case (get_earliest availability, get_latest availability) of
        (Some earliest_start, Some latest_start) \<Rightarrow>
          if int latest_start + 1 - duration < int earliest_start
          then (case bit_and (time_of_run st) (day_filter num_days d) of
                  Inl e \<Rightarrow> Some (Inl e)
                | Inr td \<Rightarrow>
                    Some (Inr (Break (if 0 < count_true td
                                      then st\<lparr>scheduling_failures := scheduling_failures st + 1\<rparr>
                                      else st))))
          else (case find_start availability earliest_start latest_start duration
                       (num_days * secs_per_day) (rng_state st) of
                  Inl e \<Rightarrow> Some (Inl e)
                | Inr (starting_time, g') \<Rightarrow>
                    if starting_time = - 1
                    then Some (Inr (Break (st\<lparr>rng_state := g',
                                              scheduling_failures := scheduling_failures st + 1\<rparr>)))
                    else (case commit fuel act starting_time duration appliance_schedule
                                 user_earliest user_latest (st\<lparr>rng_state := g'\<rparr>) of
                            None \<Rightarrow> None
                          | Some (Inl e) \<Rightarrow> Some (Inl e)
                          | Some (Inr st') \<Rightarrow> Some (Inr (Continue st'))))
      | _ \<Rightarrow>
          (case bit_and (time_of_run st) (day_filter num_days d) of
             Inl e \<Rightarrow> Some (Inl e)
           | Inr td \<Rightarrow>
               Some (Inr (Break (if 0 < count_true td
                                 then st\<lparr>scheduling_failures := scheduling_failures st + 1\<rparr>
                                 else st)))))))))"

text \<open>One repetition: the interpreter, then the placement. A null schedule counts
  \<open>reps\<close> failures and ends the day.\<close>

definition attempt ::
  "nat \<Rightarrow> activity \<Rightarrow> nat \<Rightarrow> nat \<Rightarrow> int \<Rightarrow> bool \<Rightarrow> synth_state
     \<Rightarrow> (py_error + synth_state loop_step) option" where
  "attempt fuel act num_days d reps vary_appliance st =
     (case process_model fuel act (appliances st) vary_appliance (rng_state st) of
        None \<Rightarrow> None
      | Some (Inl e) \<Rightarrow> Some (Inl e)
      | Some (Inr ((duration, appliance_schedule, user_earliest, user_latest), store', g')) \<Rightarrow>
          (let st1 = st\<lparr>appliances := store', rng_state := g'\<rparr>
           in case appliance_schedule of
                None \<Rightarrow>
                  Some (Inr (Break (st1\<lparr>scheduling_failures := scheduling_failures st1 + reps\<rparr>)))
              | Some sched \<Rightarrow>
                  place fuel act num_days d duration sched user_earliest user_latest st1))"

text \<open>\<open>for r in range(reps)\<close>, with \<open>n\<close> repetitions left.\<close>

fun rep_loop ::
  "nat \<Rightarrow> activity \<Rightarrow> nat \<Rightarrow> nat \<Rightarrow> int \<Rightarrow> bool \<Rightarrow> nat \<Rightarrow> synth_state
     \<Rightarrow> (py_error + synth_state) option" where
  "rep_loop fuel act num_days d reps vary_appliance 0 st = Some (Inr st)"
| "rep_loop fuel act num_days d reps vary_appliance (Suc n) st =
     (case attempt fuel act num_days d reps vary_appliance st of
        None \<Rightarrow> None
      | Some (Inl e) \<Rightarrow> Some (Inl e)
      | Some (Inr (Break st')) \<Rightarrow> Some (Inr st')
      | Some (Inr (Continue st')) \<Rightarrow> rep_loop fuel act num_days d reps vary_appliance n st')"

text \<open>The body of the loop over the days.\<close>

definition day_step ::
  "nat \<Rightarrow> activity \<Rightarrow> nat \<Rightarrow> real \<Rightarrow> bool \<Rightarrow> nat \<Rightarrow> synth_state \<Rightarrow> (py_error + synth_state) option" where
  "day_step fuel act num_days runs_per_day vary_appliance d st =
     (case draw_reps runs_per_day (rng_state st) of
        (reps, g') \<Rightarrow>
          (case rep_loop fuel act num_days d reps vary_appliance (nat reps)
                  (st\<lparr>rng_state := g', scheduled_activities := 0\<rparr>) of
             None \<Rightarrow> None
           | Some (Inl e) \<Rightarrow> Some (Inl e)
           | Some (Inr st') \<Rightarrow>
               Some (Inr (st'\<lparr>scheduling_success :=
                                scheduling_success st' + scheduled_activities st'\<rparr>))))"

fun day_loop ::
  "nat \<Rightarrow> activity \<Rightarrow> nat \<Rightarrow> real \<Rightarrow> bool \<Rightarrow> nat list \<Rightarrow> synth_state
     \<Rightarrow> (py_error + synth_state) option" where
  "day_loop fuel act num_days runs_per_day vary_appliance [] st = Some (Inr st)"
| "day_loop fuel act num_days runs_per_day vary_appliance (d # ds) st =
     (case day_step fuel act num_days runs_per_day vary_appliance d st of
        None \<Rightarrow> None
      | Some (Inl e) \<Rightarrow> Some (Inl e)
      | Some (Inr st') \<Rightarrow> day_loop fuel act num_days runs_per_day vary_appliance ds st')"

text \<open>\<open>ActivityModel.synthesize\<close>: returns \<open>activity_power\<close>. With an unbound appliance
  it returns the zero array at once (after a warning).\<close>

definition activity_synthesize ::
  "nat \<Rightarrow> activity \<Rightarrow> nat \<Rightarrow> real \<Rightarrow> bool \<Rightarrow> synth_state
     \<Rightarrow> (py_error + (power \<times> synth_state)) option" where
  "activity_synthesize fuel act num_days runs_per_day vary_appliance st =
     (if \<not> fst (all_bindings_satisfied act) then Some (Inr (zeros (num_days * secs_per_day), st))
      else
        (let st0 = st\<lparr>powers := (if activity_type act \<in> dom (powers st) then powers st
                                   else (powers st)(activity_type act \<mapsto>
                                          zeros (num_days * secs_per_day))),
                      activity_power := zeros (num_days * secs_per_day),
                      scheduling_failures := 0,
                      scheduling_success := 0,
                      scheduled_activities := 0,
                      committed := []\<rparr>
         in case day_loop fuel act num_days runs_per_day vary_appliance [0..<num_days] st0 of
              None \<Rightarrow> None
            | Some (Inl e) \<Rightarrow> Some (Inl e)
            | Some (Inr st') \<Rightarrow> Some (Inr (activity_power st', st'))))"

section \<open>UserModel.py and the synthesis loop of antgen.py\<close>

text \<open>
  A user's dictionaries \<open>activities\<close>, \<open>runs_per_day\<close> and \<open>possible_runtimes\<close> have the same
  keys (the constructor fills the three together); they are modelled as one list of entries
  in insertion order.
\<close>

record user_activity =
  act_name :: string
  act_model :: activity
  daily_runs :: real
  possible_runtime :: bitmap

record user_model =
  user_name :: string
  days :: nat
  availability :: bitmap
  activities :: "user_activity list"

text \<open>\<open>sorted(items, key=lambda x: random.random())\<close>: one draw per item, in the order
  of the items, then a stable sort by the keys drawn.\<close>

fun draw_keys :: "'a list \<Rightarrow> rng \<Rightarrow> (real \<times> 'a) list \<times> rng" where
  "draw_keys [] g = ([], g)"
| "draw_keys (x # xs) g =
     (case random_random g of
        (u, g') \<Rightarrow> (case draw_keys xs g' of (kxs, g'') \<Rightarrow> ((u, x) # kxs, g'')))"

definition shuffled :: "'a list \<Rightarrow> rng \<Rightarrow> 'a list \<times> rng" where
  "shuffled xs g = (case draw_keys xs g of (kxs, g') \<Rightarrow> (map snd (sort_key fst kxs), g'))"

text \<open>\<open>all_powers[key] += total\<close>.\<close>

definition add_to :: "(string \<rightharpoonup> power) \<Rightarrow> string \<Rightarrow> power \<Rightarrow> py_error + (string \<rightharpoonup> power)" where
  "add_to all_powers key tot =
     (case all_powers key of
        None \<Rightarrow> Inl KeyError
      | Some p \<Rightarrow> (case np_add p tot of Inl e \<Rightarrow> Inl e | Inr p' \<Rightarrow> Inr (all_powers(key \<mapsto> p'))))"

text \<open>The loop of \<open>UserModel.synthesize\<close> over the shuffled activities. The activity's
  time-of-run bitmap and the user's availability are passed by reference: the bitmaps that
  \<open>ActivityModel.synthesize\<close> leaves are written back to the user.\<close>

fun activities_loop ::
  "nat \<Rightarrow> bool \<Rightarrow> user_activity list \<Rightarrow> user_model \<Rightarrow> synth_state
     \<Rightarrow> (py_error + (user_model \<times> synth_state)) option" where
  "activities_loop fuel vary [] u st = Some (Inr (u, st))"
| "activities_loop fuel vary (e # es) u st =
     (case map_of (map (\<lambda>x. (act_name x, possible_runtime x)) (activities u)) (act_name e) of
        None \<Rightarrow> Some (Inl KeyError)
      | Some tor \<Rightarrow>
     (case activity_synthesize fuel (act_model e) (days u) (daily_runs e) vary
             (st\<lparr>time_of_run := tor, user_available := availability u\<rparr>) of
        None \<Rightarrow> None
      | Some (Inl err) \<Rightarrow> Some (Inl err)
      | Some (Inr (tot, st')) \<Rightarrow>
          (case add_to (powers st') (user_name u) tot of
             Inl err \<Rightarrow> Some (Inl err)
           | Inr p1 \<Rightarrow>
               (case add_to p1 ''total'' tot of
                  Inl err \<Rightarrow> Some (Inl err)
                | Inr p2 \<Rightarrow>
                    activities_loop fuel vary es
                      (u\<lparr>availability := user_available st',
                         activities :=
                           map (\<lambda>x. if act_name x = act_name e
                                     then x\<lparr>possible_runtime := time_of_run st'\<rparr> else x)
                             (activities u)\<rparr>)
                      (st'\<lparr>powers := p2\<rparr>)))))"

text \<open>\<open>UserModel.synthesize\<close>.\<close>

definition user_synthesize ::
  "nat \<Rightarrow> bool \<Rightarrow> user_model \<Rightarrow> synth_state \<Rightarrow> (py_error + (user_model \<times> synth_state)) option" where
  "user_synthesize fuel vary u st =
     (let st1 = st\<lparr>powers := (powers st)(user_name u \<mapsto> zeros (days u * secs_per_day))\<rparr>
      in case shuffled (activities u) (rng_state st1) of
           (order, g') \<Rightarrow> activities_loop fuel vary order u (st1\<lparr>rng_state := g'\<rparr>))"

text \<open>The loop of \<open>main\<close> over the users; the users processed are returned in order.\<close>

fun users_loop ::
  "nat \<Rightarrow> bool \<Rightarrow> user_model list \<Rightarrow> synth_state
     \<Rightarrow> (py_error + (user_model list \<times> synth_state)) option" where
  "users_loop fuel vary [] st = Some (Inr ([], st))"
| "users_loop fuel vary (u # us) st =
     (case user_synthesize fuel vary u st of
        None \<Rightarrow> None
      | Some (Inl e) \<Rightarrow> Some (Inl e)
      | Some (Inr (u', st')) \<Rightarrow>
          (case users_loop fuel vary us st' of
             None \<Rightarrow> None
           | Some (Inl e) \<Rightarrow> Some (Inl e)
           | Some (Inr (us', st'')) \<Rightarrow> Some (Inr (u' # us', st''))))"

text \<open>The synthesis step of \<open>main\<close>: \<open>all_events = []\<close>,
  \<open>all_powers = {'total': zeros}\<close>, then every user in turn. The appliance store and the
  two generators are what the earlier steps of \<open>main\<close> left.\<close>

definition main_synthesis ::
  "nat \<Rightarrow> bool \<Rightarrow> nat \<Rightarrow> user_model list \<Rightarrow> app_store \<Rightarrow> rng \<Rightarrow> np_rng
     \<Rightarrow> (py_error + (user_model list \<times> synth_state)) option" where
  "main_synthesis fuel vary num_days users store g npg =
     users_loop fuel vary users
       \<lparr>powers = [''total'' \<mapsto> zeros (num_days * secs_per_day)], events = [],
        time_of_run = [], user_available = [], appliances = store, rng_state = g,
        np_state = npg, activity_power = [], scheduling_failures = 0,
        scheduling_success = 0, scheduled_activities = 0, committed = []\<rparr>"

section \<open>The invariant of the committed windows\<close>

text \<open>The invariant of the committed windows, relative to the time-of-run bitmap \<open>tor0\<close>
  at the start of the run: the bitmap keeps its length and frees nothing; every committed
  window starts at a non-negative offset, lies where \<open>tor0\<close> was free and is busy now; and no
  second belongs to two committed windows.\<close>

definition windows_inv :: "bitmap \<Rightarrow> synth_state \<Rightarrow> bool" where
  "windows_inv tor0 st \<longleftrightarrow>
     length (time_of_run st) = length tor0
     \<and> (\<forall>i < length tor0. time_of_run st ! i \<longrightarrow> tor0 ! i)
     \<and> (\<forall>k < length (committed st).
           0 \<le> fst (committed st ! k)
           \<and> (\<forall>x. fst (committed st ! k) \<le> x
                    \<and> x < fst (committed st ! k) + snd (committed st ! k) \<longrightarrow>
                 nat x < length tor0 \<and> tor0 ! nat x \<and> \<not> time_of_run st ! nat x))
     \<and> (\<forall>k < length (committed st). \<forall>j < k.
           \<not> (\<exists>x. fst (committed st ! j) \<le> x
                    \<and> x < fst (committed st ! j) + snd (committed st ! j)
                    \<and> fst (committed st ! k) \<le> x
                    \<and> x < fst (committed st ! k) + snd (committed st ! k)))"

section \<open>The sum of the users' power arrays\<close>



text \<open>The power array of a name after a run of the synthesis, \<open>None\<close> if the run did not
  return or has no such array.\<close>

definition result_power ::
  "string \<Rightarrow> (py_error + (user_model list \<times> synth_state)) option \<Rightarrow> power option" where
  "result_power key r = (case r of Some (Inr (us, st)) \<Rightarrow> powers st key | _ \<Rightarrow> None)"

section \<open>Concrete inputs\<close>

text \<open>A state without a device that lasts five seconds and always moves on to state 1,
  and the same state with probability 1/4 for successor a;
  a lamp with one ON/OFF component of 60 W over the whole operation; an activity that only
  waits, and one that switches the lamp on for ten seconds; a state of the synthesis for
  one day.\<close>

definition ex_row :: state_row where
  "ex_row = \<lparr>snm = ''init'', mn = 5, mx = 5, usr = False, fin = True, devID = 0,
              pa = 1, sa = 1, sb = 2\<rparr>"

definition ex_quarter_row :: state_row where
  "ex_quarter_row = ex_row\<lparr>pa := 1 / 4\<rparr>"

definition ex_appliance :: appliance where
  "ex_appliance = \<lparr>appliance_type = ''lamp'', models = [(10, [OnOffModel 60 1])],
       usual_duration = 10, comps = [OnOffModel 60 1],
       busy = replicate 86400 False, total_power = replicate 86400 0\<rparr>"

definition ex_activity :: activity where
  "ex_activity = \<lparr>activity_type = ''wait'', required_appliances = [],
       appliance_binding = [], appliance_lookup = [(0, ''None'')],
       state_machine = [(0, Some ex_row)]\<rparr>"

definition ex_interp :: interp where
  "ex_interp = \<lparr>current_state = 0, total_duration = 0, schedule = [],
                 user_min_time = None, user_max_time = 0\<rparr>"

definition ex_lamp_activity :: activity where
  "ex_lamp_activity = \<lparr>activity_type = ''light'', required_appliances = [''lamp''],
       appliance_binding = [(''lamp'', Some 0)], appliance_lookup = [(0, ''None''), (1, ''lamp'')],
       state_machine = [(0, Some (ex_row\<lparr>mn := 10, mx := 10, devID := 1\<rparr>))]\<rparr>"

definition ex_state :: synth_state where
  "ex_state = \<lparr>powers = [''total'' \<mapsto> replicate 86400 0], events = [],
       time_of_run = replicate 86400 True, user_available = replicate 86400 True,
       appliances = (\<lambda>_. ex_appliance), rng_state = (\<lambda>_. 0), np_state = (\<lambda>_. 0),
       activity_power = [], scheduling_failures = 0, scheduling_success = 0,
       scheduled_activities = 0, committed = []\<rparr>"

text \<open>The state in which \<open>synthesize\<close> of the lamp activity starts its first day; an
  activity whose only state lasts between 0 and 5 seconds; the state after the lamp
  activity has been scheduled once at offset 0.\<close>

definition ex_synth_state :: synth_state where
  "ex_synth_state = ex_state\<lparr>powers := [''total'' \<mapsto> replicate 86400 0, ''light'' \<mapsto> replicate 86400 0],
       activity_power := replicate 86400 0\<rparr>"

definition ex_zero_activity :: activity where
  "ex_zero_activity = ex_lamp_activity\<lparr>state_machine :=
       [(0, Some (ex_row\<lparr>mn := 0, mx := 5, devID := 1\<rparr>))]\<rparr>"

definition ex_lit_state :: synth_state where
  "ex_lit_state = ex_synth_state\<lparr>
     powers := [''total'' \<mapsto> replicate 86400 0, ''light'' \<mapsto> replicate 10 60 @ replicate 86390 0],
     events := [Event 0 ACT ''light'' START, Event 0 DEV ''lamp'' ON,
                Event 9 DEV ''lamp'' OFF, Event 9 ACT ''light'' END],
     time_of_run := replicate 10 False @ replicate 86390 True,
     appliances := (\<lambda>_. ex_appliance)
        (0 := ex_appliance\<lparr>busy := replicate 10 True @ replicate 86390 False,
                           total_power := replicate 10 60 @ replicate 86390 0\<rparr>),
     activity_power := replicate 10 60 @ replicate 86390 0,
     scheduled_activities := 1,
     committed := [(0, 10)]\<rparr>"

text \<open>The same state on a day on which the activity may not run at all, and on a day
  on which only the first five seconds are allowed.\<close>

definition ex_closed_state :: synth_state where
  "ex_closed_state = ex_synth_state\<lparr>time_of_run := replicate 86400 False\<rparr>"

definition ex_short_state :: synth_state where
  "ex_short_state = ex_synth_state\<lparr>time_of_run := replicate 5 True @ replicate 86395 False\<rparr>"

text \<open>The state after the lamp activity has been scheduled a second time, at offset 10.\<close>

definition ex_lit2_state :: synth_state where
  "ex_lit2_state = ex_synth_state\<lparr>
     powers := [''total'' \<mapsto> replicate 86400 0,
                ''light'' \<mapsto> replicate 10 60 @ replicate 10 60 @ replicate 86380 0],
     events := [Event 0 ACT ''light'' START, Event 0 DEV ''lamp'' ON,
                Event 9 DEV ''lamp'' OFF, Event 9 ACT ''light'' END,
                Event 10 ACT ''light'' START, Event 10 DEV ''lamp'' ON,
                Event 19 DEV ''lamp'' OFF, Event 19 ACT ''light'' END],
     time_of_run := replicate 10 False @ replicate 10 False @ replicate 86380 True,
     appliances := (\<lambda>_. ex_appliance)
        (0 := ex_appliance\<lparr>busy := replicate 10 True @ replicate 10 True @ replicate 86380 False,
                           total_power := replicate 10 60 @ replicate 10 60 @ replicate 86380 0\<rparr>),
     activity_power := replicate 10 60 @ replicate 10 60 @ replicate 86380 0,
     scheduled_activities := 2,
     committed := [(0, 10), (10, 10)]\<rparr>"

text \<open>A lamp whose only component is noise of mean 5 and deviation 1 within [0, 10].\<close>

definition ex_noisy_appliance :: appliance where
  "ex_noisy_appliance = ex_appliance\<lparr>models := [(10, [NoiseModel 1 0 5 1 10])],
       comps := [NoiseModel 1 0 5 1 10]\<rparr>"

text \<open>The state in which \<open>synthesize\<close> of an activity starts its first day, for any
  power dictionary, appliance store and numpy generator, and the state after an activity of
  type \<open>ty\<close> has run the device \<open>dev\<close> once at offset 0 with the per-cycle power \<open>c\<close>.\<close>

definition ex_scene :: "(string \<rightharpoonup> power) \<Rightarrow> app_store \<Rightarrow> np_rng \<Rightarrow> synth_state" where
  "ex_scene pw store npg = ex_state\<lparr>powers := pw, appliances := store, np_state := npg,
      activity_power := replicate 86400 0\<rparr>"

definition ex_scene_lit ::
  "string \<Rightarrow> string \<Rightarrow> (string \<rightharpoonup> power) \<Rightarrow> app_store \<Rightarrow> np_rng \<Rightarrow> power \<Rightarrow> synth_state" where
  "ex_scene_lit ty dev pw store npg c = (ex_scene pw store npg)\<lparr>
      events := [Event 0 ACT ty START, Event 0 DEV dev ON, Event 9 DEV dev OFF,
                 Event 9 ACT ty END],
      time_of_run := replicate 10 False @ replicate 86390 True,
      activity_power := c,
      scheduled_activities := 1,
      committed := [(0, 10)]\<rparr>"

text \<open>The user alice, present for one day, with one activity of type \<open>ty\<close> that switches
  the lamp on for ten seconds and runs at most once a day.\<close>

definition ex_user :: "string \<Rightarrow> user_model" where
  "ex_user ty = \<lparr>user_name = ''alice'', days = 1, availability = replicate 86400 True,
      activities = [\<lparr>act_name = ''lighting'',
                     act_model = ex_lamp_activity\<lparr>activity_type := ty\<rparr>,
                     daily_runs = 1 / 2,
                     possible_runtime = replicate 86400 True\<rparr>]\<rparr>"

section \<open>Properties of the bitmap utilities\<close>

lemma index_true_None: "index_true bs = None \<longleftrightarrow> (\<forall>b \<in> set bs. \<not> b)"
  by (induction bs) auto


lemma index_true_Some:
  "index_true bs = Some i \<longleftrightarrow> i < length bs \<and> bs ! i \<and> (\<forall>j < i. \<not> bs ! j)"
proof (induction bs arbitrary: i)
  case Nil
  show ?case by simp
next
  case (Cons b bs)
  show ?case
  proof (cases b)
    case True
    then show ?thesis by (cases i) auto
  next
    case False
    show ?thesis
    proof (cases i)
      case 0
      with False show ?thesis by auto
    next
      case (Suc k)
      have "(\<forall>j<Suc k. \<not> (b # bs) ! j) \<longleftrightarrow> (\<forall>j<k. \<not> bs ! j)"
        using False by (auto simp: less_Suc_eq_0_disj)
      with False Suc Cons.IH [of k] show ?thesis by auto
    qed
  qed
qed

lemma get_latest_None: "get_latest bs = None \<longleftrightarrow> (\<forall>b \<in> set bs. \<not> b)"
proof -
  have "get_latest bs = None \<longleftrightarrow> index_true (rev bs) = None"
    by (cases "index_true (rev bs)") (simp_all add: get_latest_def get_earliest_def)
  then show ?thesis by (simp add: index_true_None)
qed

lemma get_latest_Some:
  "get_latest bs = Some k \<longleftrightarrow>
     0 < k \<and> k \<le> length bs \<and> bs ! (k - 1) \<and> (\<forall>j. k \<le> j \<and> j < length bs \<longrightarrow> \<not> bs ! j)"
proof -
  let ?n = "length bs"
  have fwd: "0 < ?n - off \<and> ?n - off \<le> ?n \<and> bs ! (?n - off - 1) \<and>
        (\<forall>j. ?n - off \<le> j \<and> j < ?n \<longrightarrow> \<not> bs ! j)"
    if h: "index_true (rev bs) = Some off" for off
  proof -
    from h have a: "off < ?n" and b: "rev bs ! off" and c: "\<forall>j<off. \<not> rev bs ! j"
      by (auto simp: index_true_Some)
    from a b have "bs ! (?n - off - 1)" by (simp add: rev_nth)
    moreover have "\<not> bs ! j" if "?n - off \<le> j" "j < ?n" for j
    proof -
      have "?n - 1 - j < off" using that a by arith
      with c have "\<not> rev bs ! (?n - 1 - j)" by blast
      moreover have "?n - 1 - j < ?n" using that by arith
      ultimately show ?thesis using that by (simp add: rev_nth)
    qed
    then have "\<forall>j. ?n - off \<le> j \<and> j < ?n \<longrightarrow> \<not> bs ! j" by blast
    moreover have "0 < ?n - off" "?n - off \<le> ?n" using a by arith+
    ultimately show ?thesis by blast
  qed
  have bwd: "index_true (rev bs) = Some (?n - k)"
    if h: "0 < k" "k \<le> ?n" "bs ! (k - 1)" "\<forall>j. k \<le> j \<and> j < ?n \<longrightarrow> \<not> bs ! j"
  proof -
    have "?n - k < ?n" using h by arith
    moreover have "rev bs ! (?n - k)"
    proof -
      have "?n - Suc (?n - k) = k - 1" using h by arith
      with h \<open>?n - k < ?n\<close> show ?thesis by (simp add: rev_nth)
    qed
    moreover have "\<not> rev bs ! j" if "j < ?n - k" for j
    proof -
      have "k \<le> ?n - Suc j" "?n - Suc j < ?n" "j < ?n" using that h by arith+
      with h show ?thesis by (simp add: rev_nth)
    qed
    ultimately show ?thesis by (simp add: index_true_Some)
  qed
  show ?thesis
  proof
    assume "get_latest bs = Some k"
    then obtain off where o: "index_true (rev bs) = Some off" and k: "k = ?n - off"
      by (cases "index_true (rev bs)") (simp_all add: get_latest_def get_earliest_def)
    from fwd [OF o] k show "0 < k \<and> k \<le> ?n \<and> bs ! (k - 1) \<and> (\<forall>j. k \<le> j \<and> j < ?n \<longrightarrow> \<not> bs ! j)"
      by simp
  next
    assume "0 < k \<and> k \<le> ?n \<and> bs ! (k - 1) \<and> (\<forall>j. k \<le> j \<and> j < ?n \<longrightarrow> \<not> bs ! j)"
    then have h: "0 < k" "k \<le> ?n" "bs ! (k - 1)" "\<forall>j. k \<le> j \<and> j < ?n \<longrightarrow> \<not> bs ! j"
      by blast+
    have "index_true (rev bs) = Some (?n - k)" by (rule bwd [OF h])
    with h(2) show "get_latest bs = Some k"
      by (simp add: get_latest_def get_earliest_def Let_def)
  qed
qed

text \<open>
  Claim C2. \<open>Earliest\<close> returns the index of the first true bit, and, on the bitmap of
  length 10 whose true bits are at indices 3, 4 and 5, the value 3. \<open>Latest\<close> is claimed to
  return the index of the last true bit, 5 on that bitmap; \<open>get_latest\<close> returns
  \<open>len(bitmap) - off\<close>, which is that index plus one: 6.
\<close>

theorem get_latest_example:
  "get_earliest [False, False, False, True, True, True, False, False, False, False] = Some 3 \<and>
   get_latest [False, False, False, True, True, True, False, False, False, False] = Some 6"
  by (simp add: get_latest_def get_earliest_def)

section \<open>Properties of the generators\<close>

lemma random_random_range: "0 \<le> fst (random_random g) \<and> fst (random_random g) < 1"
  by (simp add: random_random_def)

lemma random_randint_range:
  "random_randint a b g = Inr (x, g') \<Longrightarrow> a \<le> x \<and> x \<le> b"
proof -
  assume h: "random_randint a b g = Inr (x, g')"
  then have ab: "a \<le> b" and x: "x = a + int (g 0) mod (b - a + 1)"
    by (auto simp: random_randint_def split: if_splits)
  have "0 < b - a + 1" using ab by simp
  then have "0 \<le> int (g 0) mod (b - a + 1)" "int (g 0) mod (b - a + 1) < b - a + 1"
    by (rule pos_mod_sign, rule pos_mod_bound)
  with x show ?thesis by simp
qed

lemma random_randint_ok:
  "a \<le> b \<Longrightarrow> \<exists>x. random_randint a b g = Inr (x, rng_tail g) \<and> a \<le> x \<and> x \<le> b"
proof -
  assume ab: "a \<le> b"
  then have e: "random_randint a b g = Inr (a + int (g 0) mod (b - a + 1), rng_tail g)"
    by (simp add: random_randint_def)
  from random_randint_range [OF e] e show ?thesis by blast
qed

lemma rng_tail_const: "rng_tail (\<lambda>_. c) = (\<lambda>_. c)"
  by (simp add: rng_tail_def)

section \<open>Properties of the interpreter\<close>

lemma next_state_eq:
  "fst (next_state row g) = (if fst (random_random g) < pa row then sa row else sb row)"
  by (simp add: next_state_def split: prod.splits)

lemma random_randint_tail:
  "random_randint a b g = Inr (x, g') \<Longrightarrow> g' = rng_tail g"
  by (simp add: random_randint_def split: if_splits)

lemma state_duration_draws:
  assumes "state_duration act store row g = Inr (rt, g1)"
  shows "g1 = (rng_tail ^^ (if mn row = 0 \<and> mx row = 0 \<and> devID row \<noteq> 0 then 0 else 1)) g"
  using assms
  by (auto simp: state_duration_def Let_def dest: random_randint_tail
      split: if_splits sum.splits option.splits)

lemma advance_draws:
  assumes "advance act row rt s g1 = Inr (s2, g2)"
  shows "g2 = (rng_tail ^^ (if devID row \<noteq> 0 \<and> \<not> fin row then 1 else 0)) g1"
  using assms
  by (auto simp: advance_def Let_def dest: random_randint_tail
      split: if_splits sum.splits prod.splits)

lemma process_state_draws:
  assumes "process_state act store row s g = Inr (s', g')"
  shows "(current_state s', g')
           = next_state row ((rng_tail ^^ ((if mn row = 0 \<and> mx row = 0 \<and> devID row \<noteq> 0 then 0 else 1)
                                + (if devID row \<noteq> 0 \<and> \<not> fin row then 1 else 0))) g)"
proof -
  let ?s1 = "if user_min_time s = None \<and> usr row
             then s\<lparr>user_min_time := Some (total_duration s)\<rparr> else s"
  from assms obtain rt g1 where d: "state_duration act store row g = Inr (rt, g1)"
    by (auto simp: process_state_def Let_def split: sum.splits)
  from assms d obtain s2 g2 where a: "advance act row rt ?s1 g1 = Inr (s2, g2)"
    by (auto simp: process_state_def Let_def split: sum.splits option.splits)
  from assms d a have n: "(current_state s', g') = next_state row g2"
    by (auto simp: process_state_def Let_def split: sum.splits option.splits prod.splits)
  from state_duration_draws [OF d] advance_draws [OF a]
  have "g2 = (rng_tail ^^ ((if mn row = 0 \<and> mx row = 0 \<and> devID row \<noteq> 0 then 0 else 1)
                + (if devID row \<noteq> 0 \<and> \<not> fin row then 1 else 0))) g"
    by (simp add: funpow_add add.commute)
  with n show ?thesis by simp
qed

lemma rng_tail_funpow: "(rng_tail ^^ k) g = (\<lambda>n. g (k + n))"
  by (induction k arbitrary: g) (simp_all add: rng_tail_def funpow_swap1)

lemma ex_quarter_above:
  "process_state ex_activity (\<lambda>_. ex_appliance) ex_quarter_row ex_interp (\<lambda>_. 2 ^ 52)
     = Inr (ex_interp\<lparr>total_duration := 5, current_state := 2\<rparr>, \<lambda>_. 2 ^ 52)"
  by (simp add: process_state_def state_duration_def advance_def next_state_def
      random_randint_def random_random_def rng_tail_const ex_quarter_row_def ex_row_def
      ex_activity_def ex_interp_def)

lemma ex_quarter_below:
  "process_state ex_activity (\<lambda>_. ex_appliance) ex_quarter_row ex_interp (\<lambda>_. 0)
     = Inr (ex_interp\<lparr>total_duration := 5, current_state := 1\<rparr>, \<lambda>_. 0)"
  by (simp add: process_state_def state_duration_def advance_def next_state_def
      random_randint_def random_random_def rng_tail_const ex_quarter_row_def ex_row_def
      ex_activity_def ex_interp_def)

lemma ex_quarter_draws:
  "(1::nat) = (if mn ex_quarter_row = 0 \<and> mx ex_quarter_row = 0 \<and> devID ex_quarter_row \<noteq> 0
               then 0 else 1)
            + (if devID ex_quarter_row \<noteq> 0 \<and> \<not> fin ex_quarter_row then 1 else 0)"
  by (simp add: ex_quarter_row_def ex_row_def)

text \<open>
  Claim C8. Whenever the interpreter completes a state, the draw of \<open>random.random()\<close>
  taken for the transition is element \<open>k\<close> of the seeded stream, where \<open>k\<close> counts the draws
  of \<open>random.randint\<close> that the state made before it: one for the duration, unless the usual
  duration of the appliance is used, and one for the jitter of a device state that need not
  complete. The next state is successor a if that draw is below the probability \<open>pa\<close> of
  the state, and successor b otherwise; so a probability of 1 always selects successor a,
  and a probability of 0 always selects successor b.
\<close>

theorem transition_rule:
  assumes "process_state act store row s g = Inr (s', g')"
    and "k = (if mn row = 0 \<and> mx row = 0 \<and> devID row \<noteq> 0 then 0 else 1)
             + (if devID row \<noteq> 0 \<and> \<not> fin row then 1 else (0::nat))"
  shows "current_state s' = (if real (g k mod 2 ^ 53) / 2 ^ 53 < pa row then sa row else sb row)
         \<and> random_random ((rng_tail ^^ k) g) = (real (g k mod 2 ^ 53) / 2 ^ 53, g')
         \<and> (pa row = 1 \<longrightarrow> current_state s' = sa row)
         \<and> (pa row = 0 \<longrightarrow> current_state s' = sb row)"
proof -
  let ?u = "real (g k mod 2 ^ 53) / 2 ^ 53"
  from process_state_draws [OF assms(1)] assms(2)
  have n: "(current_state s', g') = next_state row ((rng_tail ^^ k) g)" by simp
  have r: "random_random ((rng_tail ^^ k) g) = (?u, rng_tail ((rng_tail ^^ k) g))"
    by (simp add: random_random_def rng_tail_funpow)
  from n r have c: "current_state s' = (if ?u < pa row then sa row else sb row)"
    and g: "g' = rng_tail ((rng_tail ^^ k) g)"
    by (simp_all add: next_state_def)
  from random_random_range [of "(rng_tail ^^ k) g"] r have u: "0 \<le> ?u" "?u < 1" by simp_all
  from c u have "pa row = 1 \<longrightarrow> current_state s' = sa row"
    and "pa row = 0 \<longrightarrow> current_state s' = sb row" by auto
  with c g r show ?thesis by simp
qed

theorem transition_rule_witness:
  "process_state ex_activity (\<lambda>_. ex_appliance) ex_quarter_row ex_interp (\<lambda>_. 2 ^ 52)
     = Inr (ex_interp\<lparr>total_duration := 5, current_state := 2\<rparr>, \<lambda>_. 2 ^ 52)
   \<and> process_state ex_activity (\<lambda>_. ex_appliance) ex_quarter_row ex_interp (\<lambda>_. 0)
     = Inr (ex_interp\<lparr>total_duration := 5, current_state := 1\<rparr>, \<lambda>_. 0)
   \<and> pa ex_quarter_row = 1 / 4 \<and> sa ex_quarter_row = 1 \<and> sb ex_quarter_row = 2
   \<and> real ((2::nat) ^ 52 mod 2 ^ 53) / 2 ^ 53 = 1 / 2
   \<and> real ((0::nat) mod 2 ^ 53) / 2 ^ 53 = 0
   \<and> current_state (ex_interp\<lparr>total_duration := 5, current_state := 2\<rparr>) = sb ex_quarter_row
   \<and> current_state (ex_interp\<lparr>total_duration := 5, current_state := 1\<rparr>) = sa ex_quarter_row"
proof -
  have r: "pa ex_quarter_row = 1 / 4" "sa ex_quarter_row = 1" "sb ex_quarter_row = 2"
    by (simp_all add: ex_quarter_row_def ex_row_def)
  have h: "real ((2::nat) ^ 52 mod 2 ^ 53) / 2 ^ 53 = 1 / 2"
    "real ((0::nat) mod 2 ^ 53) / 2 ^ 53 = 0" by simp_all
  from transition_rule [OF ex_quarter_above ex_quarter_draws]
  have "current_state (ex_interp\<lparr>total_duration := 5, current_state := 2\<rparr>)
          = (if real ((2::nat) ^ 52 mod 2 ^ 53) / 2 ^ 53 < pa ex_quarter_row
             then sa ex_quarter_row else sb ex_quarter_row)"
    by (rule conjunct1)
  then have b: "current_state (ex_interp\<lparr>total_duration := 5, current_state := 2\<rparr>)
      = sb ex_quarter_row"
    unfolding h r by simp
  from transition_rule [OF ex_quarter_below ex_quarter_draws]
  have "current_state (ex_interp\<lparr>total_duration := 5, current_state := 1\<rparr>)
          = (if real ((0::nat) mod 2 ^ 53) / 2 ^ 53 < pa ex_quarter_row
             then sa ex_quarter_row else sb ex_quarter_row)"
    by (rule conjunct1)
  then have a: "current_state (ex_interp\<lparr>total_duration := 5, current_state := 1\<rparr>)
      = sa ex_quarter_row"
    unfolding h r by simp
  from ex_quarter_above ex_quarter_below r h b a show ?thesis by (intro conjI)
qed

text \<open>
  Claim C5. The duration of a state: with minimum and maximum 0 and no appliance, a draw of
  \<open>random.randint(5, 10)\<close>, which lies in [5, 10]; with minimum and maximum 0 and a bound
  appliance, the usual duration of that appliance, without a draw; otherwise a draw of
  \<open>random.randint\<close> between the smaller and the larger of minimum and maximum, which lies
  between them.
\<close>

theorem duration_resolution:
  "(mn row = 0 \<and> mx row = 0 \<and> devID row = 0 \<longrightarrow>
      state_duration act store row g = random_randint 5 10 g
      \<and> (\<exists>x. state_duration act store row g = Inr (x, rng_tail g) \<and> 5 \<le> x \<and> x \<le> 10))
   \<and> (mn row = 0 \<and> mx row = 0 \<and> devID row \<noteq> 0
        \<and> lookup_binding act (devID row) = Inr (Some r) \<longrightarrow>
      state_duration act store row g = Inr (usual_duration (store r), g))
   \<and> (\<not> (mn row = 0 \<and> mx row = 0) \<longrightarrow>
      state_duration act store row g = random_randint (min (mn row) (mx row)) (max (mn row) (mx row)) g
      \<and> (\<exists>x. state_duration act store row g = Inr (x, rng_tail g)
              \<and> min (mn row) (mx row) \<le> x \<and> x \<le> max (mn row) (mx row)))"
proof (intro conjI impI)
  assume h: "mn row = 0 \<and> mx row = 0 \<and> devID row = 0"
  then show e: "state_duration act store row g = random_randint 5 10 g"
    by (simp add: state_duration_def)
  from random_randint_ok [of 5 10 g] e
  show "\<exists>x. state_duration act store row g = Inr (x, rng_tail g) \<and> 5 \<le> x \<and> x \<le> 10"
    by simp
next
  assume "mn row = 0 \<and> mx row = 0 \<and> devID row \<noteq> 0
        \<and> lookup_binding act (devID row) = Inr (Some r)"
  then show "state_duration act store row g = Inr (usual_duration (store r), g)"
    by (simp add: state_duration_def)
next
  assume h: "\<not> (mn row = 0 \<and> mx row = 0)"
  then show e: "state_duration act store row g
      = random_randint (min (mn row) (mx row)) (max (mn row) (mx row)) g"
    by (auto simp: state_duration_def)
  have "min (mn row) (mx row) \<le> max (mn row) (mx row)" by simp
  from random_randint_ok [OF this, of g] e
  show "\<exists>x. state_duration act store row g = Inr (x, rng_tail g)
              \<and> min (mn row) (mx row) \<le> x \<and> x \<le> max (mn row) (mx row)"
    by simp
qed

theorem duration_resolution_witness:
  "(mn (ex_row\<lparr>mn := 0, mx := 0\<rparr>) = 0 \<and> mx (ex_row\<lparr>mn := 0, mx := 0\<rparr>) = 0
      \<and> devID (ex_row\<lparr>mn := 0, mx := 0\<rparr>) = 0
      \<and> state_duration ex_activity (\<lambda>_. ex_appliance) (ex_row\<lparr>mn := 0, mx := 0\<rparr>) (\<lambda>_. 3)
          = Inr (8, \<lambda>_. 3))
   \<and> (lookup_binding ex_lamp_activity (devID (ex_row\<lparr>mn := 0, mx := 0, devID := 1\<rparr>)) = Inr (Some 0)
      \<and> state_duration ex_lamp_activity (\<lambda>_. ex_appliance)
            (ex_row\<lparr>mn := 0, mx := 0, devID := 1\<rparr>) (\<lambda>_. 3)
          = Inr (usual_duration ex_appliance, \<lambda>_. 3))
   \<and> (\<not> (mn (ex_row\<lparr>mn := 20, mx := 7\<rparr>) = 0 \<and> mx (ex_row\<lparr>mn := 20, mx := 7\<rparr>) = 0)
      \<and> state_duration ex_activity (\<lambda>_. ex_appliance) (ex_row\<lparr>mn := 20, mx := 7\<rparr>) (\<lambda>_. 3)
          = Inr (10, \<lambda>_. 3))"
  using duration_resolution [of "ex_row\<lparr>mn := 0, mx := 0\<rparr>" ex_activity "\<lambda>_. ex_appliance" "\<lambda>_. 3" 0]
    duration_resolution [of "ex_row\<lparr>mn := 0, mx := 0, devID := 1\<rparr>" ex_lamp_activity
       "\<lambda>_. ex_appliance" "\<lambda>_. 3" 0]
    duration_resolution [of "ex_row\<lparr>mn := 20, mx := 7\<rparr>" ex_activity "\<lambda>_. ex_appliance" "\<lambda>_. 3" 0]
  by (simp add: ex_row_def ex_lamp_activity_def lookup_binding_def random_randint_def rng_tail_const)

section \<open>Properties of the scheduler\<close>

lemma unbound_status:
  "(ty, None) \<in> set (appliance_binding act) \<Longrightarrow> \<not> fst (all_bindings_satisfied act)"
proof -
  assume "(ty, None) \<in> set (appliance_binding act)"
  then have "(ty, None) \<in> set (filter ((\<lambda>d. d = None) \<circ> snd) (appliance_binding act))"
    by simp
  then have "filter ((\<lambda>d. d = None) \<circ> snd) (appliance_binding act) \<noteq> []"
    by (cases "filter ((\<lambda>d. d = None) \<circ> snd) (appliance_binding act)") simp_all
  then show ?thesis by (simp add: all_bindings_satisfied_def)
qed

text \<open>
  Claim C6. If a required appliance type is unbound when \<open>ActivityModel.synthesize\<close> is
  invoked, it returns (whatever the fuel) an all-zero power array of horizon length and
  leaves the state as it was: the powers map, the event list, the user's availability and
  the activity's time-of-run bitmap are unchanged, and no exception is raised.
\<close>

theorem unbound_zero_contribution:
  assumes "(ty, None) \<in> set (appliance_binding act)"
  shows "activity_synthesize fuel act num_days runs_per_day vary_appliance st
           = Some (Inr (replicate (num_days * 86400) 0, st))"
  using unbound_status [OF assms]
  by (simp add: activity_synthesize_def zeros_def secs_per_day_def)

theorem unbound_zero_contribution_witness:
  "(''lamp'', None) \<in> set (appliance_binding (ex_lamp_activity\<lparr>appliance_binding := [(''lamp'', None)]\<rparr>))
   \<and> activity_synthesize 0 (ex_lamp_activity\<lparr>appliance_binding := [(''lamp'', None)]\<rparr>) 1 1 False ex_state
       = Some (Inr (replicate (1 * 86400) 0, ex_state))"
proof -
  have h: "(''lamp'', None)
      \<in> set (appliance_binding (ex_lamp_activity\<lparr>appliance_binding := [(''lamp'', None)]\<rparr>))"
    by simp
  from unbound_zero_contribution [OF h] h show ?thesis by blast
qed

section \<open>Properties of slices and arrays\<close>

lemma slice_bound_nat: "slice_bound n (int i) = min n i"
  by (simp add: slice_bound_def)

lemma slice_bound_le: "slice_bound n i \<le> n"
proof (cases "i < 0")
  case True
  then have "nat (max 0 (i + int n)) \<le> n" by arith
  with True show ?thesis by (simp add: slice_bound_def)
next
  case False
  then show ?thesis by (simp add: slice_bound_def)
qed

lemma slice_range_bounds:
  "slice_range n a b = (lo, hi) \<Longrightarrow> lo \<le> hi \<and> hi \<le> n"
  by (auto simp: slice_range_def Let_def slice_bound_le)

lemma slice_range_nat:
  "a \<le> b \<Longrightarrow> b \<le> n \<Longrightarrow> slice_range n (int a) (int b) = (a, b)"
  by (simp add: slice_range_def slice_bound_nat)

lemma length_slice_fill [simp]: "length (slice_fill bmp a b v) = length bmp"
proof -
  obtain lo hi where r: "slice_range (length bmp) a b = (lo, hi)"
    by (cases "slice_range (length bmp) a b")
  from slice_range_bounds [OF r] r show ?thesis
    by (simp add: slice_fill_def)
qed

lemma nth_slice_fill:
  assumes "slice_range (length bmp) a b = (lo, hi)" "i < length bmp"
  shows "slice_fill bmp a b v ! i = (if lo \<le> i \<and> i < hi then v else bmp ! i)"
proof -
  from slice_range_bounds [OF assms(1)] have b: "lo \<le> hi" "hi \<le> length bmp" by simp_all
  have e: "slice_fill bmp a b v = take lo bmp @ replicate (hi - lo) v @ drop hi bmp"
    using assms(1) by (simp add: slice_fill_def)
  have l: "length (take lo bmp) = lo" using b by simp
  show ?thesis
  proof (cases "i < lo")
    case True
    then have "(take lo bmp @ replicate (hi - lo) v @ drop hi bmp) ! i = take lo bmp ! i"
      using l by (simp add: nth_append)
    with True show ?thesis by (simp add: e)
  next
    case False
    then have s1: "(take lo bmp @ replicate (hi - lo) v @ drop hi bmp) ! i
        = (replicate (hi - lo) v @ drop hi bmp) ! (i - lo)"
      using l by (simp add: nth_append)
    show ?thesis
    proof (cases "i < hi")
      case True
      with False have "i - lo < hi - lo" by arith
      then have "(replicate (hi - lo) v @ drop hi bmp) ! (i - lo) = v"
        by (simp add: nth_append)
      with s1 True False show ?thesis by (simp add: e)
    next
      case h: False
      with False b have n: "\<not> i - lo < hi - lo" and d: "hi + (i - lo - (hi - lo)) = i"
        by arith+
      from n have "(replicate (hi - lo) v @ drop hi bmp) ! (i - lo)
          = drop hi bmp ! (i - lo - (hi - lo))"
        by (simp add: nth_append)
      also have "\<dots> = bmp ! i" using b d by simp
      finally show ?thesis using s1 h by (simp add: e)
    qed
  qed
qed

lemma linspace_const: "linspace c c n = replicate n c"
proof (cases "n = 1")
  case True
  then show ?thesis by (simp add: linspace_def)
next
  case False
  have "map (\<lambda>i. c) [0..<n] = replicate n c" by (simp add: map_replicate_const)
  with False show ?thesis by (simp add: linspace_def)
qed

lemma py_round_int: "py_round (of_int k) = k"
  by (simp add: py_round_def)

lemma map2_add_zeros: "length xs = n \<Longrightarrow> map2 (+) (replicate n (0::real)) xs = xs"
proof (induction xs arbitrary: n)
  case Nil
  then show ?case by simp
next
  case (Cons x xs)
  then obtain m where "n = Suc m" by (cases n) auto
  with Cons show ?case by simp
qed

section \<open>Properties of the appliance synthesizer\<close>

lemma np_add_slice_zeros:
  assumes "t + k \<le> n"
  shows "np_add_slice (zeros n) (int t) (int t + int k) (replicate k c)
           = Inr (replicate t 0 @ replicate k c @ replicate (n - (t + k)) 0)"
proof -
  have r: "slice_range n (int t) (int t + int k) = (t, t + k)"
    using slice_range_nat [of t "t + k" n] assms by simp
  have m: "map2 (+) (replicate k (0::real)) (replicate k c) = replicate k c"
    by (simp add: map2_add_zeros)
  have "min t n = t" "min k (n - t) = k" using assms by arith+
  with r m show ?thesis by (simp add: np_add_slice_def zeros_def)
qed

lemma onoff_comps:
  assumes "t + 10 \<le> n"
  shows "synthesize_comps fuel [OnOffModel 60 1] (int t) 10 0 (zeros n) g
           = Some (Inr (replicate t 0 @ replicate 10 60 @ replicate (n - (t + 10)) 0, g))"
proof -
  have p: "py_round 10 = 10"
    using py_round_int [of 10] by simp
  have s: "np_add_slice (zeros n) (int t) (int t + 10) (replicate 10 60)
      = Inr (replicate t 0 @ replicate 10 60 @ replicate (n - (t + 10)) 0)"
    using np_add_slice_zeros [OF assms, of 60] by simp
  show ?thesis
    by (simp add: p s linspace_const Let_def)
qed



section \<open>Properties of one scheduled instance\<close>

lemma run_schedule_Cons_inv:
  assumes "run_schedule fuel name t ((s, (app, d)) # rest) st final = Some (Inr (st', final'))"
  shows "\<exists>r app_power a' g' ap p p'.
           app = Some r
           \<and> appliance_synthesize fuel (appliances st r) (t + s) d (np_state st)
               = Some (Inr (app_power, a', g'))
           \<and> np_add (activity_power st) app_power = Inr ap
           \<and> powers st name = Some p
           \<and> np_add p app_power = Inr p'
           \<and> run_schedule fuel name t rest
                (st\<lparr>events := events st
                        @ [Event (t + s) DEV (appliance_type (appliances st r)) ON,
                           Event (t + s + d - 1) DEV (appliance_type (appliances st r)) OFF],
                     appliances := (appliances st)(r := a'),
                     np_state := g',
                     activity_power := ap,
                     powers := (powers st)(name \<mapsto> p')\<rparr>)
                (if final < t + s + d - 1 then t + s + d - 1 else final)
               = Some (Inr (st', final'))"
  using assms
  by (auto simp add: Let_def split: option.splits sum.splits prod.splits if_splits)

lemma run_schedule_frame:
  "run_schedule fuel name t sched st final = Some (Inr (st', final')) \<Longrightarrow>
     time_of_run st' = time_of_run st \<and> user_available st' = user_available st
     \<and> committed st' = committed st \<and> rng_state st' = rng_state st
     \<and> scheduling_failures st' = scheduling_failures st
     \<and> scheduling_success st' = scheduling_success st
     \<and> scheduled_activities st' = scheduled_activities st
     \<and> (\<forall>k. k \<noteq> name \<longrightarrow> powers st' k = powers st k)"
proof (induction sched arbitrary: st final)
  case Nil
  then show ?case by simp
next
  case (Cons x sched)
  obtain s app d where x: "x = (s, (app, d))" by (cases x) auto
  from run_schedule_Cons_inv [OF Cons.prems [unfolded x]] obtain st1 f1 where
    r: "run_schedule fuel name t sched st1 f1 = Some (Inr (st', final'))"
    and f: "time_of_run st1 = time_of_run st" "user_available st1 = user_available st"
       "committed st1 = committed st" "rng_state st1 = rng_state st"
       "scheduling_failures st1 = scheduling_failures st"
       "scheduling_success st1 = scheduling_success st"
       "scheduled_activities st1 = scheduled_activities st"
       "\<forall>k. k \<noteq> name \<longrightarrow> powers st1 k = powers st k"
    by fastforce
  from Cons.IH [OF r] f show ?case by simp
qed

lemma final_after_Nil [simp]: "final_after t [] final = final"
  by (simp add: final_after_def)

lemma final_after_Cons [simp]:
  "final_after t ((s, (a, d)) # sched) final
     = final_after t sched (if final < t + s + d - 1 then t + s + d - 1 else final)"
  by (simp add: final_after_def)

lemma run_schedule_events:
  "run_schedule fuel name t sched st final = Some (Inr (st', final')) \<Longrightarrow>
     \<exists>devs. events st' = events st @ devs
       \<and> map (\<lambda>e. (offset e, kind e, trans e)) devs
           = concat (map (\<lambda>(s, (a, d)). [(t + s, DEV, ON), (t + s + d - 1, DEV, OFF)]) sched)
       \<and> final' = final_after t sched final"
proof (induction sched arbitrary: st final)
  case Nil
  then show ?case by simp
next
  case (Cons x sched)
  obtain s app d where x: "x = (s, (app, d))" by (cases x) auto
  from run_schedule_Cons_inv [OF Cons.prems [unfolded x]] obtain st1 ty where
    r: "run_schedule fuel name t sched st1 (if final < t + s + d - 1 then t + s + d - 1 else final)
          = Some (Inr (st', final'))"
    and e: "events st1 = events st @ [Event (t + s) DEV ty ON, Event (t + s + d - 1) DEV ty OFF]"
    by fastforce
  from Cons.IH [OF r] obtain devs where
    d: "events st' = events st1 @ devs"
      "map (\<lambda>e. (offset e, kind e, trans e)) devs
           = concat (map (\<lambda>(s, (a, d)). [(t + s, DEV, ON), (t + s + d - 1, DEV, OFF)]) sched)"
      "final' = final_after t sched (if final < t + s + d - 1 then t + s + d - 1 else final)"
    by blast
  let ?devs = "[Event (t + s) DEV ty ON, Event (t + s + d - 1) DEV ty OFF] @ devs"
  have "events st' = events st @ ?devs" using d(1) e by simp
  moreover have "map (\<lambda>e. (offset e, kind e, trans e)) ?devs
           = concat (map (\<lambda>(s, (a, d)). [(t + s, DEV, ON), (t + s + d - 1, DEV, OFF)]) (x # sched))"
    using d(2) x by simp
  moreover have "final' = final_after t (x # sched) final"
    using d(3) x by simp
  ultimately show ?case by blast
qed

lemma final_after_ge:
  "final \<le> final_after t sched final
   \<and> (\<forall>(s, (a, d)) \<in> set sched. t + s + d - 1 \<le> final_after t sched final)"
proof (induction sched arbitrary: final)
  case Nil
  show ?case by simp
next
  case (Cons x sched)
  obtain s a d where x: "x = (s, (a, d))" by (cases x) auto
  let ?f1 = "if final < t + s + d - 1 then t + s + d - 1 else final"
  from Cons.IH [of ?f1] have ih: "?f1 \<le> final_after t sched ?f1"
    "\<forall>(s, (a, d)) \<in> set sched. t + s + d - 1 \<le> final_after t sched ?f1" by blast+
  have "final \<le> ?f1" "t + s + d - 1 \<le> ?f1" by simp_all
  with ih(1) have "final \<le> final_after t sched ?f1" "t + s + d - 1 \<le> final_after t sched ?f1"
    by linarith+
  with ih(2) show ?case unfolding x by simp
qed

lemma final_after_mem:
  "final_after t sched final = final
   \<or> (\<exists>(s, (a, d)) \<in> set sched. final_after t sched final = t + s + d - 1)"
proof (induction sched arbitrary: final)
  case Nil
  show ?case by simp
next
  case (Cons x sched)
  obtain s a d where x: "x = (s, (a, d))" by (cases x) auto
  let ?f1 = "if final < t + s + d - 1 then t + s + d - 1 else final"
  from Cons.IH [of ?f1] have "final_after t sched ?f1 = ?f1
     \<or> (\<exists>(s, (a, d)) \<in> set sched. final_after t sched ?f1 = t + s + d - 1)" .
  then show ?case
  proof
    assume h: "final_after t sched ?f1 = ?f1"
    show ?case
    proof (cases "final < t + s + d - 1")
      case True
      with h have "final_after t sched ?f1 = t + s + d - 1" by simp
      then show ?thesis unfolding x by simp
    next
      case False
      with h have "final_after t sched ?f1 = final" by simp
      then show ?thesis unfolding x by simp
    qed
  next
    assume "\<exists>(s, (a, d)) \<in> set sched. final_after t sched ?f1 = t + s + d - 1"
    then show ?case unfolding x by auto
  qed
qed

lemma probe_result:
  "probe n av lo hi du N g = Inr (t, g') \<Longrightarrow>
     t = - 1 \<or> (lo \<le> t \<and> t \<le> hi \<and> fits av t du N)"
proof (induction n arbitrary: g)
  case 0
  then show ?case by simp
next
  case (Suc n)
  show ?case
  proof (cases "random_randint lo hi g")
    case (Inl e)
    with Suc.prems show ?thesis by simp
  next
    case (Inr p)
    obtain x g1 where p: "p = (x, g1)" by (cases p)
    from Inr p have r: "random_randint lo hi g = Inr (x, g1)" by simp
    show ?thesis
    proof (cases "fits av x du N")
      case True
      with Suc.prems r have "t = x" by simp
      with True random_randint_range [OF r] show ?thesis by simp
    next
      case False
      with Suc.prems r have "probe n av lo hi du N g1 = Inr (t, g')" by simp
      from Suc.IH [OF this] show ?thesis .
    qed
  qed
qed

lemma scan_result:
  "scan av ts du N s0 = t \<Longrightarrow>
     (t = s0 \<and> ts = []) \<or> (t = - 1 \<and> ts \<noteq> []) \<or> (t \<in> set ts \<and> fits av t du N)"
proof (induction ts arbitrary: s0)
  case Nil
  then show ?case by simp
next
  case (Cons x ts)
  show ?case
  proof (cases "fits av x du N")
    case True
    with Cons.prems show ?thesis by simp
  next
    case False
    with Cons.prems have "scan av ts du N (- 1) = t" by simp
    from Cons.IH [OF this] show ?thesis by auto
  qed
qed

lemma find_start_result:
  assumes "find_start av e l du N g = Inr (t, g')"
  shows "t = - 1 \<or> (int e \<le> t \<and> fits av t du N)"
proof (cases "probe 10 av (int e) (int l + 1 - du) du N g")
  case (Inl err)
  with assms show ?thesis by (simp add: find_start_def)
next
  case (Inr p)
  obtain x g1 where p: "p = (x, g1)" by (cases p)
  from Inr p have r: "probe 10 av (int e) (int l + 1 - du) du N g = Inr (x, g1)" by simp
  show ?thesis
  proof (cases "x = - 1")
    case True
    with assms r have "t = scan av [int e .. int l + 1 - du - 1] du N (- 1)"
      by (simp add: find_start_def)
    from scan_result [OF this [symmetric]] show ?thesis by auto
  next
    case False
    with assms r have "t = x" by (simp add: find_start_def)
    with probe_result [OF r] show ?thesis by auto
  qed
qed

lemma commit_effect:
  assumes "commit fuel act t du sched ue ul st = Some (Inr st')"
  shows "time_of_run st' = slice_fill (time_of_run st) t (t + du) False
     \<and> committed st' = committed st @ [(t, du)]
     \<and> rng_state st' = rng_state st
     \<and> scheduling_failures st' = scheduling_failures st
     \<and> scheduling_success st' = scheduling_success st
     \<and> scheduled_activities st' = scheduled_activities st + 1
     \<and> (\<forall>k. k \<noteq> activity_type act \<longrightarrow> powers st' k = powers st k)
     \<and> (\<exists>devs. events st' = events st @ [Event t ACT (activity_type act) START] @ devs
                    @ [Event (final_after t sched 0) ACT (activity_type act) END]
           \<and> map (\<lambda>e. (offset e, kind e, trans e)) devs
               = concat (map (\<lambda>(s, (a, d)). [(t + s, DEV, ON), (t + s + d - 1, DEV, OFF)]) sched))"
proof -
  let ?st1 = "st\<lparr>scheduled_activities := scheduled_activities st + 1\<rparr>"
  let ?st2 = "case ue of
                Some u \<Rightarrow> if 0 < ul
                  then ?st1\<lparr>user_available :=
                          slice_fill (user_available ?st1) (t + u) (t + ul) False\<rparr>
                  else ?st1
              | None \<Rightarrow> ?st1"
  let ?st3 = "?st2\<lparr>time_of_run := slice_fill (time_of_run ?st2) t (t + du) False,
                   committed := committed ?st2 @ [(t, du)],
                   events := events ?st2 @ [Event t ACT (activity_type act) START]\<rparr>"
  have s2: "time_of_run ?st2 = time_of_run st" "committed ?st2 = committed st"
    "events ?st2 = events st" "rng_state ?st2 = rng_state st" "powers ?st2 = powers st"
    "scheduling_failures ?st2 = scheduling_failures st"
    "scheduling_success ?st2 = scheduling_success st"
    "scheduled_activities ?st2 = scheduled_activities st + 1"
    by (simp_all split: option.splits)
  from assms obtain st4 final where
    r: "run_schedule fuel (activity_type act) t sched ?st3 0 = Some (Inr (st4, final))"
    and e: "st' = st4\<lparr>events := events st4 @ [Event final ACT (activity_type act) END]\<rparr>"
    by (auto simp: commit_def Let_def split: option.splits sum.splits prod.splits)
  from run_schedule_frame [OF r] run_schedule_events [OF r] e s2 show ?thesis
    by auto
qed

lemma place_Continue:
  assumes "place fuel act num_days d du sched ue ul st = Some (Inr (Continue st'))"
  shows "\<exists>av e l t g'.
           availability_of num_days d ue st = Inr av
           \<and> get_earliest av = Some e \<and> get_latest av = Some l
           \<and> int e \<le> int l + 1 - du
           \<and> find_start av e l du (num_days * secs_per_day) (rng_state st) = Inr (t, g')
           \<and> t \<noteq> - 1
           \<and> commit fuel act t du sched ue ul (st\<lparr>rng_state := g'\<rparr>) = Some (Inr st')"
  using assms
  by (auto simp: place_def split: sum.splits option.splits prod.splits if_splits)

lemma place_Break:
  assumes "place fuel act num_days d du sched ue ul st = Some (Inr (Break st'))"
  shows "\<exists>g' n. st' = st\<lparr>rng_state := g', scheduling_failures := scheduling_failures st + n\<rparr>"
proof -
  have a: "st = st\<lparr>rng_state := rng_state st, scheduling_failures := scheduling_failures st + 0\<rparr>"
    by simp
  have b: "st\<lparr>scheduling_failures := scheduling_failures st + 1\<rparr>
      = st\<lparr>rng_state := rng_state st, scheduling_failures := scheduling_failures st + 1\<rparr>"
    by simp
  from assms have "st' = st \<or> st' = st\<lparr>scheduling_failures := scheduling_failures st + 1\<rparr>
     \<or> (\<exists>g'. st' = st\<lparr>rng_state := g', scheduling_failures := scheduling_failures st + 1\<rparr>)"
    by (auto simp: place_def split: sum.splits option.splits prod.splits if_splits)
  then show ?thesis using a b by metis
qed

lemma attempt_Continue:
  assumes "attempt fuel act num_days d reps vary st = Some (Inr (Continue st'))"
  shows "\<exists>du sched ue ul store' g1.
           process_model fuel act (appliances st) vary (rng_state st)
             = Some (Inr ((du, Some sched, ue, ul), store', g1))
           \<and> place fuel act num_days d du sched ue ul (st\<lparr>appliances := store', rng_state := g1\<rparr>)
               = Some (Inr (Continue st'))"
  using assms
  by (auto simp: attempt_def Let_def split: option.splits sum.splits prod.splits)

lemma place_Continue_events:
  assumes pl: "place fuel act num_days d du sched ue ul st = Some (Inr (Continue st'))"
    and ok: "\<forall>(s, (a, d)) \<in> set sched. 0 \<le> s \<and> 1 \<le> d"
  shows "\<exists>t devs final. 0 \<le> t
      \<and> events st' = events st @ [Event t ACT (activity_type act) START] @ devs
                       @ [Event final ACT (activity_type act) END]
      \<and> map (\<lambda>e. (offset e, kind e, trans e)) devs
           = concat (map (\<lambda>(s, (a, d)). [(t + s, DEV, ON), (t + s + d - 1, DEV, OFF)]) sched)
      \<and> (\<forall>e \<in> set devs. t \<le> offset e \<and> offset e \<le> final)
      \<and> (sched \<noteq> [] \<longrightarrow> (\<exists>(s, (a, d)) \<in> set sched. final = t + s + d - 1)
                          \<and> (\<forall>(s, (a, d)) \<in> set sched. t + s + d - 1 \<le> final))"
proof -
  from place_Continue [OF pl] obtain av e l t g' where
    fs: "find_start av e l du (num_days * secs_per_day) (rng_state st) = Inr (t, g')"
    and t1: "t \<noteq> - 1"
    and cm: "commit fuel act t du sched ue ul (st\<lparr>rng_state := g'\<rparr>) = Some (Inr st')"
    by blast
  from find_start_result [OF fs] t1 have t0: "0 \<le> t" by simp
  let ?final = "final_after t sched 0"
  from commit_effect [OF cm] obtain devs where
    ev: "events st' = events st @ [Event t ACT (activity_type act) START] @ devs
                  @ [Event ?final ACT (activity_type act) END]"
    and dv: "map (\<lambda>e. (offset e, kind e, trans e)) devs
           = concat (map (\<lambda>(s, (a, d)). [(t + s, DEV, ON), (t + s + d - 1, DEV, OFF)]) sched)"
    by auto
  from final_after_ge [of 0 t sched] have
    ge: "0 \<le> ?final" "\<forall>(s, (a, d)) \<in> set sched. t + s + d - 1 \<le> ?final" by blast+
  have within: "t \<le> offset e \<and> offset e \<le> ?final" if "e \<in> set devs" for e
  proof -
    from that have "(offset e, kind e, trans e) \<in> set (map (\<lambda>e. (offset e, kind e, trans e)) devs)"
      by force
    with dv obtain s a d where m: "(s, (a, d)) \<in> set sched"
      and o: "offset e = t + s \<or> offset e = t + s + d - 1"
      by auto
    from ok m have "0 \<le> s" "1 \<le> d" by auto
    moreover from ge(2) m have "t + s + d - 1 \<le> ?final" by auto
    ultimately show ?thesis using o by auto
  qed
  have last: "\<exists>(s, (a, d)) \<in> set sched. ?final = t + s + d - 1" if ne: "sched \<noteq> []"
  proof -
    from final_after_mem [of t sched 0]
    show ?thesis
    proof
      assume z: "?final = 0"
      from ne obtain s a d where m: "(s, (a, d)) \<in> set sched"
        by (cases sched) auto
      from ok m have "0 \<le> s" "1 \<le> d" by auto
      with t0 have "0 \<le> t + s + d - 1" by simp
      moreover from ge(2) m z have "t + s + d - 1 \<le> 0" by auto
      ultimately have "?final = t + s + d - 1" using z by simp
      with m show ?thesis by auto
    next
      assume "\<exists>(s, (a, d)) \<in> set sched. ?final = t + s + d - 1"
      then show ?thesis .
    qed
  qed
  from t0 ev dv within last ge(2) show ?thesis by blast
qed

section \<open>Evaluation of the concrete inputs\<close>

lemma index_true_replicate_True: "0 < n \<Longrightarrow> index_true (replicate n True) = Some 0"
  by (cases n) simp_all

lemma get_earliest_all_free: "0 < n \<Longrightarrow> get_earliest (replicate n True) = Some 0"
  by (simp add: get_earliest_def index_true_replicate_True)

lemma get_latest_all_free: "0 < n \<Longrightarrow> get_latest (replicate n True) = Some n"
  by (simp add: get_latest_def get_earliest_def index_true_replicate_True)

lemma day_filter_one: "day_filter (Suc 0) 0 = replicate 86400 True"
  by (simp add: day_filter_def slice_fill_def slice_range_def slice_bound_def secs_per_day_def)

lemma probe_first:
  "random_randint lo hi g = Inr (t, g') \<Longrightarrow> fits av t du N \<Longrightarrow>
     probe (Suc n) av lo hi du N g = Inr (t, g')"
  by simp

lemma find_start_first:
  assumes "random_randint (int e) (int l + 1 - du) g = Inr (t, g')" "fits av t du N" "t \<noteq> - 1"
  shows "find_start av e l du N g = Inr (t, g')"
proof -
  have ten: "(10::nat) = Suc 9" by simp
  have p: "probe (Suc 9) av (int e) (int l + 1 - du) du N g = Inr (t, g')"
    using assms(1,2) by (rule probe_first)
  show ?thesis unfolding find_start_def ten p using assms(3) by simp
qed

lemma ex_zero_model:
  "process_model (Suc fuel) ex_zero_activity (\<lambda>_. ex_appliance) False (\<lambda>_. 0)
     = Some (Inr ((0, Some [(0, (Some 0, 0))], None, 0), (\<lambda>_. ex_appliance), (\<lambda>_. 0)))"
  by (simp add: process_model_def process_state_def state_duration_def advance_def
      next_state_def lookup_binding_def dict_len_def random_randint_def random_random_def
      rng_tail_const ex_zero_activity_def ex_lamp_activity_def ex_row_def)

lemma ex_zero_synth:
  "appliance_synthesize fuel ex_appliance 0 0 (\<lambda>_. 0) = Some (Inr (replicate 86400 0, ex_appliance, \<lambda>_. 0))"
  by (simp add: appliance_synthesize_def ex_appliance_def py_round_def zeros_def np_add_def
      slice_fill_def slice_range_def slice_bound_def)

lemma ex_availability:
  "availability_of (Suc 0) 0 None ex_synth_state = Inr (replicate 86400 True)"
  by (simp add: availability_of_def day_filter_one bit_and_def ex_synth_state_def ex_state_def)

lemma ex_zero_find:
  "find_start (replicate 86400 True) 0 86400 0 86400 (\<lambda>_. 0) = Inr (0, \<lambda>_. 0)"
proof (rule find_start_first)
  show "random_randint (int 0) (int 86400 + 1 - 0) (\<lambda>_. 0) = Inr (0, \<lambda>_. 0)"
    by (simp add: random_randint_def rng_tail_const)
  show "fits (replicate 86400 True) 0 0 86400"
    by (simp add: fits_def slice_def slice_range_def slice_bound_def all_bits_def)
  show "(0::int) \<noteq> - 1" by simp
qed

lemma const_upd: "(\<lambda>_. c)(x := c) = (\<lambda>_. c)"
  by (simp add: fun_eq_iff)

lemma ex_zero_commit:
  "commit fuel ex_zero_activity 0 0 [(0, (Some 0, 0))] None 0 ex_synth_state
     = Some (Inr (ex_synth_state\<lparr>
         events := [Event 0 ACT ''light'' START, Event 0 DEV ''lamp'' ON,
                    Event (- 1) DEV ''lamp'' OFF, Event 0 ACT ''light'' END],
         scheduled_activities := 1, committed := [(0, 0)]\<rparr>))"
  by (simp add: commit_def ex_zero_synth ex_synth_state_def ex_state_def np_add_def Let_def
      slice_fill_def slice_range_def slice_bound_def ex_zero_activity_def ex_lamp_activity_def
      const_upd, simp add: ex_appliance_def)

lemma ex_zero_place:
  "place fuel ex_zero_activity (Suc 0) 0 0 [(0, (Some 0, 0))] None 0 ex_synth_state
     = Some (Inr (Continue (ex_synth_state\<lparr>
         events := [Event 0 ACT ''light'' START, Event 0 DEV ''lamp'' ON,
                    Event (- 1) DEV ''lamp'' OFF, Event 0 ACT ''light'' END],
         scheduled_activities := 1, committed := [(0, 0)]\<rparr>)))"
proof -
  have s: "ex_synth_state\<lparr>rng_state := \<lambda>_. 0\<rparr> = ex_synth_state"
    by (simp add: ex_synth_state_def ex_state_def)
  have t: "time_of_run ex_synth_state = replicate 86400 True"
    "rng_state ex_synth_state = (\<lambda>_. 0)"
    by (simp_all add: ex_synth_state_def ex_state_def)
  show ?thesis
    by (simp add: place_def visualize_map_row_def secs_per_day_def t ex_availability
        get_earliest_all_free get_latest_all_free ex_zero_find s ex_zero_commit)
qed

lemma ex_lamp_model:
  "process_model (Suc fuel) ex_lamp_activity (\<lambda>_. ex_appliance) False (\<lambda>_. 0)
     = Some (Inr ((10, Some [(0, (Some 0, 10))], None, 0), (\<lambda>_. ex_appliance), (\<lambda>_. 0)))"
  by (simp add: process_model_def process_state_def state_duration_def advance_def
      next_state_def lookup_binding_def dict_len_def random_randint_def random_random_def
      rng_tail_const ex_lamp_activity_def ex_row_def)

lemma ex_lamp_find:
  "find_start (replicate 86400 True) 0 86400 10 86400 (\<lambda>_. 0) = Inr (0, \<lambda>_. 0)"
proof (rule find_start_first)
  show "random_randint (int 0) (int 86400 + 1 - 10) (\<lambda>_. 0) = Inr (0, \<lambda>_. 0)"
    by (simp add: random_randint_def rng_tail_const)
  show "fits (replicate 86400 True) 0 10 86400"
    by (simp add: fits_def slice_def slice_range_def slice_bound_def all_bits_def list_all_iff)
  show "(0::int) \<noteq> - 1" by simp
qed

lemma ex_lamp_synth:
  "appliance_synthesize fuel ex_appliance 0 10 (\<lambda>_. 0)
     = Some (Inr (replicate 10 60 @ replicate 86390 0,
                  ex_appliance\<lparr>busy := replicate 10 True @ replicate 86390 False,
                               total_power := replicate 10 60 @ replicate 86390 0\<rparr>,
                  \<lambda>_. 0))"
  using onoff_comps [of 0 86400 fuel "\<lambda>_. 0"]
  by (simp add: appliance_synthesize_def ex_appliance_def np_add_def map2_add_zeros
      slice_fill_def slice_range_def slice_bound_def)

lemma ex_lamp_commit:
  "commit fuel ex_lamp_activity 0 10 [(0, (Some 0, 10))] None 0 ex_synth_state
     = Some (Inr ex_lit_state)"
  by (simp add: commit_def ex_lamp_synth ex_synth_state_def ex_state_def np_add_def Let_def
      slice_fill_def slice_range_def slice_bound_def ex_lamp_activity_def map2_add_zeros
      ex_lit_state_def, simp add: ex_appliance_def)

lemma ex_lamp_place:
  "place fuel ex_lamp_activity (Suc 0) 0 10 [(0, (Some 0, 10))] None 0 ex_synth_state
     = Some (Inr (Continue ex_lit_state))"
proof -
  have s: "ex_synth_state\<lparr>rng_state := \<lambda>_. 0\<rparr> = ex_synth_state"
    by (simp add: ex_synth_state_def ex_state_def)
  have t: "time_of_run ex_synth_state = replicate 86400 True"
    "rng_state ex_synth_state = (\<lambda>_. 0)"
    by (simp_all add: ex_synth_state_def ex_state_def)
  show ?thesis
    by (simp add: place_def visualize_map_row_def secs_per_day_def t ex_availability
        get_earliest_all_free get_latest_all_free ex_lamp_find s ex_lamp_commit)
qed

lemma ex_lamp_attempt:
  "attempt (Suc fuel) ex_lamp_activity (Suc 0) 0 reps False ex_synth_state
     = Some (Inr (Continue ex_lit_state))"
proof -
  have s: "ex_synth_state\<lparr>appliances := \<lambda>_. ex_appliance, rng_state := \<lambda>_. 0\<rparr> = ex_synth_state"
    by (simp add: ex_synth_state_def ex_state_def)
  have t: "appliances ex_synth_state = (\<lambda>_. ex_appliance)"
    "rng_state ex_synth_state = (\<lambda>_. 0)"
    by (simp_all add: ex_synth_state_def ex_state_def)
  show ?thesis
    by (simp add: attempt_def t ex_lamp_model s ex_lamp_place)
qed

section \<open>Events of a scheduled instance\<close>

text \<open>
  Claim C4, as stated, fails for a sub-operation of duration 0: the activity whose only
  state runs the lamp for \<open>random.randint(0, 5)\<close> seconds draws 0 and is scheduled at offset
  0; its DEVICE OFF event has offset -1, before ACTIVITY START (0) and outside
  [ACTIVITY START, ACTIVITY END] = [0, 0], and ACTIVITY END (0) is not the OFF offset (-1).
\<close>

theorem device_off_before_start:
  "attempt 1 ex_zero_activity 1 0 1 False ex_synth_state
     = Some (Inr (Continue (ex_synth_state\<lparr>
         events := [Event 0 ACT ''light'' START, Event 0 DEV ''lamp'' ON,
                    Event (- 1) DEV ''lamp'' OFF, Event 0 ACT ''light'' END],
         scheduled_activities := 1, committed := [(0, 0)]\<rparr>)))"
proof -
  have s: "ex_synth_state\<lparr>appliances := \<lambda>_. ex_appliance, rng_state := \<lambda>_. 0\<rparr> = ex_synth_state"
    by (simp add: ex_synth_state_def ex_state_def)
  have t: "appliances ex_synth_state = (\<lambda>_. ex_appliance)"
    "rng_state ex_synth_state = (\<lambda>_. 0)"
    by (simp_all add: ex_synth_state_def ex_state_def)
  show ?thesis
    by (simp add: attempt_def t ex_zero_model s ex_zero_place)
qed

text \<open>
  Claim C4, amended. For every scheduled instance whose schedule entries all have a
  non-negative relative offset and a duration of at least one second: the instance appends
  ACTIVITY START at its starting time \<open>t \<ge> 0\<close>, then for every entry a DEVICE ON at
  \<open>t + offset\<close> and a DEVICE OFF at \<open>t + offset + duration - 1\<close>, then ACTIVITY END; every
  DEVICE offset lies within [ACTIVITY START, ACTIVITY END]; and if the schedule is not empty,
  ACTIVITY END is the greatest OFF offset of its entries.
\<close>

theorem device_events_within_activity:
  assumes pm: "process_model fuel act (appliances st) vary (rng_state st)
                 = Some (Inr ((du, Some sched, ue, ul), store', g1))"
    and ok: "\<forall>(s, (a, d)) \<in> set sched. 0 \<le> s \<and> 1 \<le> d"
    and at: "attempt fuel act num_days d reps vary st = Some (Inr (Continue st'))"
  shows "\<exists>t devs final. 0 \<le> t
      \<and> events st' = events st @ [Event t ACT (activity_type act) START] @ devs
                       @ [Event final ACT (activity_type act) END]
      \<and> map (\<lambda>e. (offset e, kind e, trans e)) devs
           = concat (map (\<lambda>(s, (a, d)). [(t + s, DEV, ON), (t + s + d - 1, DEV, OFF)]) sched)
      \<and> (\<forall>e \<in> set devs. t \<le> offset e \<and> offset e \<le> final)
      \<and> (sched \<noteq> [] \<longrightarrow> (\<exists>(s, (a, d)) \<in> set sched. final = t + s + d - 1)
                          \<and> (\<forall>(s, (a, d)) \<in> set sched. t + s + d - 1 \<le> final))"
proof -
  from attempt_Continue [OF at] pm have
    "place fuel act num_days d du sched ue ul (st\<lparr>appliances := store', rng_state := g1\<rparr>)
       = Some (Inr (Continue st'))"
    by auto
  from place_Continue_events [OF this ok] show ?thesis by simp
qed

theorem device_events_within_activity_witness:
  "process_model 1 ex_lamp_activity (appliances ex_synth_state) False (rng_state ex_synth_state)
     = Some (Inr ((10, Some [(0, (Some 0, 10))], None, 0), (\<lambda>_. ex_appliance), (\<lambda>_. 0)))
   \<and> list_all (\<lambda>(s, (a, d)). 0 \<le> s \<and> 1 \<le> d) [(0 :: int, (Some (0 :: nat), 10 :: int))]
   \<and> attempt 1 ex_lamp_activity 1 0 1 False ex_synth_state = Some (Inr (Continue ex_lit_state))
   \<and> (\<exists>t devs final. 0 \<le> t
        \<and> events ex_lit_state = events ex_synth_state @ [Event t ACT ''light'' START] @ devs
                       @ [Event final ACT ''light'' END]
        \<and> map (\<lambda>e. (offset e, kind e, trans e)) devs = [(t, DEV, ON), (t + 9, DEV, OFF)]
        \<and> final = t + 9)"
proof -
  have pm: "process_model 1 ex_lamp_activity (appliances ex_synth_state) False
              (rng_state ex_synth_state)
     = Some (Inr ((10, Some [(0, (Some 0, 10))], None, 0), (\<lambda>_. ex_appliance), (\<lambda>_. 0)))"
    using ex_lamp_model [of 0] by (simp add: ex_synth_state_def ex_state_def)
  have ok: "\<forall>(s, (a, d)) \<in> set [(0 :: int, (Some (0 :: nat), 10 :: int))]. 0 \<le> s \<and> 1 \<le> d"
    by simp
  have at: "attempt 1 ex_lamp_activity 1 0 1 False ex_synth_state
      = Some (Inr (Continue ex_lit_state))"
    using ex_lamp_attempt [of 0 1] by simp
  let ?sched = "[(0 :: int, (Some (0 :: nat), 10 :: int))]"
  from device_events_within_activity [OF pm ok at] obtain t devs final where
    r: "0 \<le> t
      \<and> events ex_lit_state = events ex_synth_state
           @ [Event t ACT (activity_type ex_lamp_activity) START]
           @ devs @ [Event final ACT (activity_type ex_lamp_activity) END]
      \<and> map (\<lambda>e. (offset e, kind e, trans e)) devs
         = concat (map (\<lambda>(s, (a, d)). [(t + s, DEV, ON), (t + s + d - 1, DEV, OFF)]) ?sched)
      \<and> (\<forall>e \<in> set devs. t \<le> offset e \<and> offset e \<le> final)
      \<and> (?sched \<noteq> [] \<longrightarrow>
         (\<exists>(s, (a, d)) \<in> set ?sched. final = t + s + d - 1)
         \<and> (\<forall>(s, (a, d)) \<in> set ?sched. t + s + d - 1 \<le> final))"
    by (elim exE) blast
  from r have t0: "0 \<le> t" by simp
  from r have f: "final = t + 9" by simp
  from r have d: "map (\<lambda>e. (offset e, kind e, trans e)) devs = [(t, DEV, ON), (t + 9, DEV, OFF)]"
    by simp
  from r have e: "events ex_lit_state = events ex_synth_state @ [Event t ACT ''light'' START]
        @ devs @ [Event final ACT ''light'' END]"
    by (simp add: ex_lamp_activity_def)
  have "\<exists>t devs final. 0 \<le> t
        \<and> events ex_lit_state = events ex_synth_state @ [Event t ACT ''light'' START] @ devs
                       @ [Event final ACT ''light'' END]
        \<and> map (\<lambda>e. (offset e, kind e, trans e)) devs = [(t, DEV, ON), (t + 9, DEV, OFF)]
        \<and> final = t + 9"
    using t0 e d f by (intro exI [of _ t] exI [of _ devs] exI [of _ final] conjI)
  moreover have "list_all (\<lambda>(s, (a, d)). 0 \<le> s \<and> 1 \<le> d)
      [(0 :: int, (Some (0 :: nat), 10 :: int))]"
    by simp
  ultimately show ?thesis using pm at by (intro conjI)
qed

section \<open>Properties of the placement search\<close>

lemma secs_per_day_pos: "0 < secs_per_day"
  by (simp add: secs_per_day_def)

lemma length_day_filter [simp]: "length (day_filter num_days d) = num_days * secs_per_day"
  by (simp add: day_filter_def)

lemma nth_day_filter:
  assumes "d < num_days" "i < num_days * secs_per_day"
  shows "day_filter num_days d ! i \<longleftrightarrow> d * secs_per_day \<le> i \<and> i < (d + 1) * secs_per_day"
proof -
  have le: "(d + 1) * secs_per_day \<le> num_days * secs_per_day"
    using assms(1) by (intro mult_le_mono1) simp
  have "d * secs_per_day \<le> (d + 1) * secs_per_day" by simp
  then have r0: "slice_range (num_days * secs_per_day)
        (int (d * secs_per_day)) (int ((d + 1) * secs_per_day))
      = (d * secs_per_day, (d + 1) * secs_per_day)"
    using le by (rule slice_range_nat)
  have r: "slice_range (length (replicate (num_days * secs_per_day) False))
        (int (d * secs_per_day)) (int ((d + 1) * secs_per_day))
      = (d * secs_per_day, (d + 1) * secs_per_day)"
    unfolding length_replicate by (rule r0)
  have i: "i < length (replicate (num_days * secs_per_day) False)" using assms(2) by simp
  from nth_slice_fill [OF r i, of True] assms(2) show ?thesis
    by (simp add: day_filter_def)
qed

lemma bit_and_ok:
  "length x = length y \<Longrightarrow> bit_and x y = Inr (map2 (\<and>) x y)"
  by (simp add: bit_and_def)

lemma bit_and_Inr:
  "bit_and x y = Inr z \<Longrightarrow> length x = length y \<and> length z = length x
     \<and> (\<forall>i < length x. z ! i \<longleftrightarrow> x ! i \<and> y ! i)"
  by (auto simp: bit_and_def split: if_splits)

lemma count_true_pos: "0 < count_true bmp \<longleftrightarrow> (\<exists>i < length bmp. bmp ! i)"
proof -
  have "0 < count_true bmp \<longleftrightarrow> filter (\<lambda>b. b) bmp \<noteq> []"
    by (simp add: count_true_def)
  also have "\<dots> \<longleftrightarrow> (\<exists>b \<in> set bmp. b)"
    by (simp add: filter_empty_conv)
  also have "\<dots> \<longleftrightarrow> True \<in> set bmp" by auto
  also have "\<dots> \<longleftrightarrow> (\<exists>i < length bmp. bmp ! i = True)" by (rule in_set_conv_nth)
  also have "\<dots> \<longleftrightarrow> (\<exists>i < length bmp. bmp ! i)" by simp
  finally show ?thesis .
qed

lemma get_earliest_None: "get_earliest bmp = None \<longleftrightarrow> (\<forall>i < length bmp. \<not> bmp ! i)"
proof -
  have "get_earliest bmp = None \<longleftrightarrow> \<not> True \<in> set bmp"
    by (auto simp: get_earliest_def index_true_None)
  also have "\<dots> \<longleftrightarrow> \<not> (\<exists>i < length bmp. bmp ! i = True)"
    by (simp only: in_set_conv_nth)
  also have "\<dots> \<longleftrightarrow> (\<forall>i < length bmp. \<not> bmp ! i)" by simp
  finally show ?thesis .
qed

lemma get_earliest_Some:
  "get_earliest bmp = Some e \<Longrightarrow> e < length bmp \<and> bmp ! e"
  by (simp add: get_earliest_def index_true_Some)

lemma all_bits_slice:
  assumes "slice_range (length xs) a b = (lo, hi)"
  shows "all_bits (slice xs a b) \<longleftrightarrow> (\<forall>i. lo \<le> i \<and> i < hi \<longrightarrow> xs ! i)"
proof -
  from slice_range_bounds [OF assms] have b: "lo \<le> hi" "hi \<le> length xs" by simp_all
  have "all_bits (slice xs a b) \<longleftrightarrow> (\<forall>b \<in> set (take (hi - lo) (drop lo xs)). b)"
    using assms by (simp add: all_bits_def slice_def list_all_iff)
  also have "\<dots> \<longleftrightarrow> (\<forall>j < length (take (hi - lo) (drop lo xs)). take (hi - lo) (drop lo xs) ! j)"
    by (rule all_set_conv_all_nth)
  also have "\<dots> \<longleftrightarrow> (\<forall>j < hi - lo. xs ! (lo + j))"
  proof -
    have l: "length (take (hi - lo) (drop lo xs)) = hi - lo" using b by simp
    have "take (hi - lo) (drop lo xs) ! j = xs ! (lo + j)" if "j < hi - lo" for j
      using that b by simp
    with l show ?thesis by simp
  qed
  also have "\<dots> \<longleftrightarrow> (\<forall>i. lo \<le> i \<and> i < hi \<longrightarrow> xs ! i)"
  proof
    assume h: "\<forall>j < hi - lo. xs ! (lo + j)"
    show "\<forall>i. lo \<le> i \<and> i < hi \<longrightarrow> xs ! i"
    proof (intro allI impI)
      fix i assume "lo \<le> i \<and> i < hi"
      then have "i - lo < hi - lo" "lo + (i - lo) = i" by arith+
      with h have "xs ! (lo + (i - lo))" by blast
      with \<open>lo + (i - lo) = i\<close> show "xs ! i" by simp
    qed
  next
    assume h: "\<forall>i. lo \<le> i \<and> i < hi \<longrightarrow> xs ! i"
    show "\<forall>j < hi - lo. xs ! (lo + j)"
    proof (intro allI impI)
      fix j assume "j < hi - lo"
      then have "lo \<le> lo + j \<and> lo + j < hi" by arith
      with h show "xs ! (lo + j)" by blast
    qed
  qed
  finally show ?thesis .
qed

lemma no_free_run_positive:
  assumes "\<not> (\<exists>s l. du \<le> int l \<and> s + l \<le> length av \<and> (\<forall>i. s \<le> i \<and> i < s + l \<longrightarrow> av ! i))"
  shows "1 \<le> du"
proof (rule ccontr)
  assume "\<not> 1 \<le> du"
  then have "du \<le> int 0 \<and> 0 + 0 \<le> length av \<and> (\<forall>i. 0 \<le> i \<and> i < 0 + 0 \<longrightarrow> av ! i)" by simp
  with assms show False by blast
qed

lemma no_free_run_no_fit:
  assumes nf: "\<not> (\<exists>s l. du \<le> int l \<and> s + l \<le> length av \<and> (\<forall>i. s \<le> i \<and> i < s + l \<longrightarrow> av ! i))"
    and t: "0 \<le> t"
  shows "\<not> fits av t du (length av)"
proof
  assume f: "fits av t du (length av)"
  from no_free_run_positive [OF nf] have du: "1 \<le> du" .
  from f have le: "t + du \<le> int (length av)"
    and ab: "all_bits (slice av t (t + du))" by (simp_all add: fits_def)
  have "nat t \<le> nat (t + du)" "nat (t + du) \<le> length av" using t du le by arith+
  then have "slice_range (length av) (int (nat t)) (int (nat (t + du))) = (nat t, nat (t + du))"
    by (rule slice_range_nat)
  moreover have "int (nat t) = t" "int (nat (t + du)) = t + du" using t du by simp_all
  ultimately have r: "slice_range (length av) t (t + du) = (nat t, nat (t + du))" by simp
  from ab all_bits_slice [OF r] have a: "\<forall>i. nat t \<le> i \<and> i < nat (t + du) \<longrightarrow> av ! i" by simp
  have e: "nat (t + du) = nat t + nat du" using t du by arith
  have "du \<le> int (nat du)" using du by simp
  moreover have "nat t + nat du \<le> length av" using le t du by arith
  moreover have "\<forall>i. nat t \<le> i \<and> i < nat t + nat du \<longrightarrow> av ! i" using a e by simp
  ultimately show False using nf by blast
qed

lemma probe_fail:
  assumes "\<forall>t. lo \<le> t \<longrightarrow> \<not> fits av t du N" "lo \<le> hi"
  shows "\<exists>g'. probe n av lo hi du N g = Inr (- 1, g')"
proof (induction n arbitrary: g)
  case 0
  show ?case by simp
next
  case (Suc n)
  from random_randint_ok [OF assms(2), of g] obtain x where
    r: "random_randint lo hi g = Inr (x, rng_tail g)" and x: "lo \<le> x" by blast
  from assms(1) x have "\<not> fits av x du N" by blast
  with r have "probe (Suc n) av lo hi du N g = probe n av lo hi du N (rng_tail g)" by simp
  with Suc.IH [of "rng_tail g"] show ?case by simp
qed

lemma scan_fail:
  "\<forall>t \<in> set ts. \<not> fits av t du N \<Longrightarrow> scan av ts du N (- 1) = - 1"
  by (induction ts) simp_all

lemma find_start_fail:
  assumes "\<forall>t. int e \<le> t \<longrightarrow> \<not> fits av t du N" "int e \<le> int l + 1 - du"
  shows "\<exists>g'. find_start av e l du N g = Inr (- 1, g')"
proof -
  from probe_fail [OF assms, of 10 g] obtain g' where
    p: "probe 10 av (int e) (int l + 1 - du) du N g = Inr (- 1, g')" by blast
  have "\<forall>t \<in> set [int e .. int l + 1 - du - 1]. \<not> fits av t du N" using assms(1) by simp
  from scan_fail [OF this] p show ?thesis by (simp add: find_start_def)
qed

lemma visualize_map_row_ok:
  "length bmp = num_days * secs_per_day \<Longrightarrow> d < num_days \<Longrightarrow> visualize_map_row bmp d = Inr ()"
  by (simp add: visualize_map_row_def secs_per_day_pos)

lemma availability_of_Inr:
  assumes "availability_of num_days d ue st = Inr av"
  shows "length av = num_days * secs_per_day
     \<and> length (time_of_run st) = num_days * secs_per_day
     \<and> (\<forall>i < num_days * secs_per_day. av ! i \<longrightarrow> time_of_run st ! i \<and> day_filter num_days d ! i)"
proof (cases ue)
  case None
  with assms have "bit_and (time_of_run st) (day_filter num_days d) = Inr av"
    by (simp add: availability_of_def)
  from bit_and_Inr [OF this] show ?thesis by simp
next
  case (Some u)
  with assms obtain ut where a: "bit_and (user_available st) (time_of_run st) = Inr ut"
    and b: "bit_and ut (day_filter num_days d) = Inr av"
    by (auto simp: availability_of_def split: sum.splits)
  from bit_and_Inr [OF a] bit_and_Inr [OF b] show ?thesis by simp
qed

lemma day_has_free_second:
  assumes td: "bit_and (time_of_run st) (day_filter num_days d) = Inr td" and d: "d < num_days"
  shows "0 < count_true td \<longleftrightarrow>
     (\<exists>i. d * secs_per_day \<le> i \<and> i < (d + 1) * secs_per_day \<and> time_of_run st ! i)"
proof -
  let ?N = "num_days * secs_per_day"
  from bit_and_Inr [OF td] have l: "length (time_of_run st) = ?N" "length td = ?N"
    and n: "\<forall>i < ?N. td ! i \<longleftrightarrow> time_of_run st ! i \<and> day_filter num_days d ! i"
    by simp_all
  have le: "(d + 1) * secs_per_day \<le> ?N" using d by (intro mult_le_mono1) simp
  show ?thesis
  proof
    assume "0 < count_true td"
    then obtain i where i: "i < ?N" "td ! i" using l by (auto simp: count_true_pos)
    with n have "time_of_run st ! i" "day_filter num_days d ! i" by simp_all
    with nth_day_filter [OF d i(1)] show
      "\<exists>i. d * secs_per_day \<le> i \<and> i < (d + 1) * secs_per_day \<and> time_of_run st ! i"
      by blast
  next
    assume "\<exists>i. d * secs_per_day \<le> i \<and> i < (d + 1) * secs_per_day \<and> time_of_run st ! i"
    then obtain i where i: "d * secs_per_day \<le> i" "i < (d + 1) * secs_per_day"
      "time_of_run st ! i" by blast
    from i(2) le have iN: "i < ?N" by simp
    with nth_day_filter [OF d iN] i n have "td ! i" by simp
    with iN l show "0 < count_true td" by (auto simp: count_true_pos)
  qed
qed

lemma place_unfold:
  assumes "(if ul \<noteq> 0 then visualize_map_row (user_available st) d else Inr ()) = Inr ()"
    "visualize_map_row (time_of_run st) d = Inr ()"
    "availability_of num_days d ue st = Inr av"
    "visualize_map_row av d = Inr ()"
    "bit_and (time_of_run st) (day_filter num_days d) = Inr td"
  shows "place fuel act num_days d du sched ue ul st =
     (case (get_earliest av, get_latest av) of
        (Some earliest_start, Some latest_start) \<Rightarrow>
          if int latest_start + 1 - du < int earliest_start
          then Some (Inr (Break (if 0 < count_true td
                                      then st\<lparr>scheduling_failures := scheduling_failures st + 1\<rparr>
                                      else st)))
          else (case find_start av earliest_start latest_start du
                       (num_days * secs_per_day) (rng_state st) of
                  Inl e \<Rightarrow> Some (Inl e)
                | Inr (starting_time, g') \<Rightarrow>
                    if starting_time = - 1
                    then Some (Inr (Break (st\<lparr>rng_state := g',
                                              scheduling_failures := scheduling_failures st + 1\<rparr>)))
                    else (case commit fuel act starting_time du sched
                                 ue ul (st\<lparr>rng_state := g'\<rparr>) of
                            None \<Rightarrow> None
                          | Some (Inl e) \<Rightarrow> Some (Inl e)
                          | Some (Inr st') \<Rightarrow> Some (Inr (Continue st'))))
      | _ \<Rightarrow> Some (Inr (Break (if 0 < count_true td
                                 then st\<lparr>scheduling_failures := scheduling_failures st + 1\<rparr>
                                 else st))))"
  unfolding place_def assms sum.case unit.case by (rule refl)

lemma place_no_free_run:
  assumes av: "availability_of num_days d ue st = Inr av"
    and ua: "length (user_available st) = num_days * secs_per_day"
    and d: "d < num_days"
    and nf: "\<not> (\<exists>s l. du \<le> int l \<and> s + l \<le> length av
                  \<and> (\<forall>i. s \<le> i \<and> i < s + l \<longrightarrow> av ! i))"
  shows "\<exists>g'. place fuel act num_days d du sched ue ul st
           = Some (Inr (Break (st\<lparr>rng_state := g',
                 scheduling_failures := scheduling_failures st
                   + (if \<exists>i. d * secs_per_day \<le> i \<and> i < (d + 1) * secs_per_day
                               \<and> time_of_run st ! i
                      then 1 else 0)\<rparr>)))"
proof -
  let ?N = "num_days * secs_per_day"
  let ?free = "\<exists>i. d * secs_per_day \<le> i \<and> i < (d + 1) * secs_per_day \<and> time_of_run st ! i"
  from availability_of_Inr [OF av] have lav: "length av = ?N"
    and ltor: "length (time_of_run st) = ?N"
    and sub: "\<forall>i < ?N. av ! i \<longrightarrow> time_of_run st ! i \<and> day_filter num_days d ! i"
    by simp_all
  have v1: "(if ul \<noteq> 0 then visualize_map_row (user_available st) d else Inr ()) = Inr ()"
    using visualize_map_row_ok [OF ua d] by simp
  have v2: "visualize_map_row (time_of_run st) d = Inr ()"
    using visualize_map_row_ok [OF ltor d] .
  have v3: "visualize_map_row av d = Inr ()"
    using visualize_map_row_ok [OF lav d] .
  have td: "bit_and (time_of_run st) (day_filter num_days d)
      = Inr (map2 (\<and>) (time_of_run st) (day_filter num_days d))"
    using ltor by (simp add: bit_and_ok)
  let ?td = "map2 (\<and>) (time_of_run st) (day_filter num_days d)"
  from day_has_free_second [OF td d] have cnt: "0 < count_true ?td \<longleftrightarrow> ?free" .
  note pl = place_unfold [OF v1 v2 av v3 td, of fuel act du sched]
  have early: "(if 0 < count_true ?td
        then st\<lparr>scheduling_failures := scheduling_failures st + 1\<rparr> else st)
      = st\<lparr>rng_state := rng_state st,
           scheduling_failures := scheduling_failures st + (if ?free then 1 else 0)\<rparr>"
    using cnt by simp
  show ?thesis
  proof (cases "get_earliest av")
    case None
    then have "place fuel act num_days d du sched ue ul st
        = Some (Inr (Break (if 0 < count_true ?td
             then st\<lparr>scheduling_failures := scheduling_failures st + 1\<rparr> else st)))"
      by (simp add: pl)
    with early show ?thesis by (intro exI [of _ "rng_state st"]) simp
  next
    case (Some e)
    note e = this
    from get_earliest_Some [OF e] lav have eb: "e < ?N" "av ! e" by simp_all
    with sub have "time_of_run st ! e" "day_filter num_days d ! e" by simp_all
    with nth_day_filter [OF d eb(1)] have free: ?free by blast
    show ?thesis
    proof (cases "get_latest av")
      case None
      with e have "place fuel act num_days d du sched ue ul st
          = Some (Inr (Break (if 0 < count_true ?td
               then st\<lparr>scheduling_failures := scheduling_failures st + 1\<rparr> else st)))"
        by (simp add: pl)
      with early show ?thesis by (intro exI [of _ "rng_state st"]) simp
    next
      case (Some l)
      note l = this
      show ?thesis
      proof (cases "int l + 1 - du < int e")
        case True
        with e l have "place fuel act num_days d du sched ue ul st
            = Some (Inr (Break (if 0 < count_true ?td
                 then st\<lparr>scheduling_failures := scheduling_failures st + 1\<rparr> else st)))"
          by (simp add: pl)
        with early show ?thesis by (intro exI [of _ "rng_state st"]) simp
      next
        case False
        then have le: "int e \<le> int l + 1 - du" by simp
        have "\<forall>t. int e \<le> t \<longrightarrow> \<not> fits av t du ?N"
          using no_free_run_no_fit [OF nf] lav by auto
        from find_start_fail [OF this le, of "rng_state st"] obtain g' where
          fs: "find_start av e l du ?N (rng_state st) = Inr (- 1, g')" by blast
        from e l False fs have "place fuel act num_days d du sched ue ul st
            = Some (Inr (Break (st\<lparr>rng_state := g',
                  scheduling_failures := scheduling_failures st + 1\<rparr>)))"
          by (simp add: pl)
        with free show ?thesis by (intro exI [of _ g']) simp
      qed
    qed
  qed
qed

lemma rep_loop_Break:
  "attempt fuel act num_days d reps vary st = Some (Inr (Break st')) \<Longrightarrow>
     rep_loop fuel act num_days d reps vary (Suc n) st = Some (Inr st')"
  by simp

lemma availability_of_shared:
  "availability_of num_days d ue (st\<lparr>appliances := store', rng_state := g\<rparr>)
     = availability_of num_days d ue st"
  by (cases ue) (simp_all add: availability_of_def)

lemma index_true_replicate_False: "index_true (replicate n False) = None"
  by (simp add: index_true_None)

lemma ex_closed_availability:
  "availability_of (Suc 0) 0 None ex_closed_state = Inr (replicate 86400 False)"
  by (simp add: availability_of_def day_filter_one bit_and_def ex_closed_state_def)

lemma ex_closed_place:
  "place fuel ex_lamp_activity (Suc 0) 0 10 [(0, (Some 0, 10))] None 0 ex_closed_state
     = Some (Inr (Break ex_closed_state))"
proof -
  have t: "time_of_run ex_closed_state = replicate 86400 False"
    by (simp add: ex_closed_state_def)
  have v: "visualize_map_row (replicate 86400 False) 0 = Inr ()"
    by (simp add: visualize_map_row_def secs_per_day_def)
  have td: "bit_and (time_of_run ex_closed_state) (day_filter (Suc 0) 0)
      = Inr (replicate 86400 False)"
    by (simp add: t day_filter_one bit_and_def)
  have c: "count_true (replicate 86400 False) = 0"
    by (simp add: count_true_def)
  have e: "get_earliest (replicate 86400 False) = None"
    by (simp add: get_earliest_def index_true_replicate_False)
  have "(if (0::int) \<noteq> 0 then visualize_map_row (user_available ex_closed_state) 0 else Inr ())
      = Inr ()" by simp
  from place_unfold [OF this _ ex_closed_availability v td, of fuel ex_lamp_activity 10
      "[(0, (Some 0, 10))]"] v t e c
  show ?thesis by simp
qed

text \<open>
  Claim C7, as stated, fails on a day on which the activity's time-of-run bitmap has no free
  second (a weekday without legal times, or a day already filled): the intersection is
  all-false, so it holds no free run for the candidate of 10 seconds, the day's attempts
  stop, but the failure counter stays as it was. The code counts the failure only if
  \<open>(time_of_run & day_filter).count() > 0\<close>.
\<close>

theorem no_failure_counted_on_closed_day:
  "availability_of 1 0 None ex_closed_state = Inr (replicate 86400 False)
   \<and> attempt 1 ex_lamp_activity 1 0 1 False ex_closed_state
       = Some (Inr (Break ex_closed_state))"
proof -
  have s: "ex_closed_state\<lparr>appliances := \<lambda>_. ex_appliance, rng_state := \<lambda>_. 0\<rparr> = ex_closed_state"
    by (simp add: ex_closed_state_def ex_synth_state_def ex_state_def)
  have t: "appliances ex_closed_state = (\<lambda>_. ex_appliance)"
    "rng_state ex_closed_state = (\<lambda>_. 0)"
    by (simp_all add: ex_closed_state_def ex_synth_state_def ex_state_def)
  have "attempt (Suc 0) ex_lamp_activity (Suc 0) 0 1 False ex_closed_state
       = Some (Inr (Break ex_closed_state))"
    by (simp add: attempt_def t ex_lamp_model s ex_closed_place)
  with ex_closed_availability show ?thesis by simp
qed

lemma ex_short_availability:
  "availability_of (Suc 0) 0 None ex_short_state = Inr (replicate 5 True @ replicate 86395 False)"
proof -
  have "replicate 86400 True = replicate 5 True @ replicate 86395 True"
    by (simp add: replicate_add [symmetric])
  then have "map2 (\<and>) (replicate 5 True @ replicate 86395 False) (replicate 86400 True)
      = replicate 5 True @ replicate 86395 False"
    by simp
  then show ?thesis
    by (simp add: availability_of_def day_filter_one bit_and_def ex_short_state_def)
qed

lemma ex_short_no_free_run:
  "\<not> (\<exists>s l. (10::int) \<le> int l \<and> s + l \<le> length (replicate 5 True @ replicate 86395 False)
        \<and> (\<forall>i. s \<le> i \<and> i < s + l \<longrightarrow> (replicate 5 True @ replicate 86395 False) ! i))"
proof
  assume "\<exists>s l. (10::int) \<le> int l \<and> s + l \<le> length (replicate 5 True @ replicate 86395 False)
        \<and> (\<forall>i. s \<le> i \<and> i < s + l \<longrightarrow> (replicate 5 True @ replicate 86395 False) ! i)"
  then obtain s l where l: "10 \<le> l" and b: "s + l \<le> 86400"
    and a: "\<forall>i. s \<le> i \<and> i < s + l \<longrightarrow> (replicate 5 True @ replicate 86395 False) ! i"
    by auto
  from l have "s \<le> s + 9 \<and> s + 9 < s + l" by arith
  with a have t: "(replicate 5 True @ replicate 86395 False) ! (s + 9)" by blast
  have "s + 9 - 5 < 86395" using l b by arith
  then have "\<not> (replicate 5 True @ replicate 86395 False) ! (s + 9)"
    by (simp add: nth_append)
  with t show False by blast
qed

text \<open>
  Claim C7, amended. Whenever the intersection of the activity's time-of-run bitmap, the
  current-day mask and (only if the candidate involves the user) the user's availability
  holds no free run of length at least the candidate's duration, the attempt ends in a
  break: the remaining repetitions of the day are not attempted, the loop over the
  repetitions returns normally (no exception), the powers, the events and both bitmaps are
  unchanged, and the failure counter is incremented by one if the time-of-run bitmap has a
  free second on the current day and left unchanged otherwise.
\<close>

theorem no_slot_failure:
  assumes pm: "process_model fuel act (appliances st) vary (rng_state st)
                 = Some (Inr ((du, Some sched, ue, ul), store', g1))"
    and av: "availability_of num_days d ue st = Inr av"
    and ua: "length (user_available st) = num_days * secs_per_day"
    and d: "d < num_days"
    and nf: "\<not> (\<exists>s l. du \<le> int l \<and> s + l \<le> length av
                  \<and> (\<forall>i. s \<le> i \<and> i < s + l \<longrightarrow> av ! i))"
  shows "\<exists>g'. attempt fuel act num_days d reps vary st
             = Some (Inr (Break (st\<lparr>appliances := store', rng_state := g',
                   scheduling_failures := scheduling_failures st
                     + (if \<exists>i. d * secs_per_day \<le> i \<and> i < (d + 1) * secs_per_day
                                \<and> time_of_run st ! i
                        then 1 else 0)\<rparr>)))
           \<and> rep_loop fuel act num_days d reps vary (Suc n) st
             = Some (Inr (st\<lparr>appliances := store', rng_state := g',
                   scheduling_failures := scheduling_failures st
                     + (if \<exists>i. d * secs_per_day \<le> i \<and> i < (d + 1) * secs_per_day
                                \<and> time_of_run st ! i
                        then 1 else 0)\<rparr>))"
proof -
  let ?st1 = "st\<lparr>appliances := store', rng_state := g1\<rparr>"
  have av1: "availability_of num_days d ue ?st1 = Inr av"
    using av by (simp add: availability_of_shared)
  have ua1: "length (user_available ?st1) = num_days * secs_per_day" using ua by simp
  from place_no_free_run [OF av1 ua1 d nf, of fuel act sched ul] obtain g' where
    pl: "place fuel act num_days d du sched ue ul ?st1
           = Some (Inr (Break (?st1\<lparr>rng_state := g',
                 scheduling_failures := scheduling_failures ?st1
                   + (if \<exists>i. d * secs_per_day \<le> i \<and> i < (d + 1) * secs_per_day
                               \<and> time_of_run ?st1 ! i
                      then 1 else 0)\<rparr>)))"
    by blast
  have at: "attempt fuel act num_days d reps vary st
      = Some (Inr (Break (st\<lparr>appliances := store', rng_state := g',
                   scheduling_failures := scheduling_failures st
                     + (if \<exists>i. d * secs_per_day \<le> i \<and> i < (d + 1) * secs_per_day
                                \<and> time_of_run st ! i
                        then 1 else 0)\<rparr>)))"
    using pl by (simp add: attempt_def pm)
  from at rep_loop_Break [OF at, of n] show ?thesis by (intro exI [of _ g'] conjI)
qed

theorem no_slot_failure_witness:
  "process_model 1 ex_lamp_activity (appliances ex_short_state) False (rng_state ex_short_state)
     = Some (Inr ((10, Some [(0, (Some 0, 10))], None, 0), (\<lambda>_. ex_appliance), (\<lambda>_. 0)))
   \<and> availability_of 1 0 None ex_short_state = Inr (replicate 5 True @ replicate 86395 False)
   \<and> length (user_available ex_short_state) = 1 * secs_per_day
   \<and> (0::nat) < 1
   \<and> \<not> (\<exists>s l. (10::int) \<le> int l \<and> s + l \<le> length (replicate 5 True @ replicate 86395 False)
        \<and> (\<forall>i. s \<le> i \<and> i < s + l \<longrightarrow> (replicate 5 True @ replicate 86395 False) ! i))
   \<and> (\<exists>g'. attempt 1 ex_lamp_activity 1 0 3 False ex_short_state
              = Some (Inr (Break (ex_short_state\<lparr>appliances := \<lambda>_. ex_appliance,
                    rng_state := g', scheduling_failures := 1\<rparr>)))
           \<and> rep_loop 1 ex_lamp_activity 1 0 3 False 3 ex_short_state
              = Some (Inr (ex_short_state\<lparr>appliances := \<lambda>_. ex_appliance,
                    rng_state := g', scheduling_failures := 1\<rparr>)))"
proof -
  have pm: "process_model 1 ex_lamp_activity (appliances ex_short_state) False
              (rng_state ex_short_state)
     = Some (Inr ((10, Some [(0, (Some 0, 10))], None, 0), (\<lambda>_. ex_appliance), (\<lambda>_. 0)))"
    using ex_lamp_model [of 0] by (simp add: ex_short_state_def ex_synth_state_def ex_state_def)
  have av: "availability_of 1 0 None ex_short_state
      = Inr (replicate 5 True @ replicate 86395 False)"
    using ex_short_availability by simp
  have ua: "length (user_available ex_short_state) = 1 * secs_per_day"
    by (simp add: ex_short_state_def ex_synth_state_def ex_state_def secs_per_day_def)
  have d: "(0::nat) < 1" by simp
  have free: "\<exists>i. 0 * secs_per_day \<le> i \<and> i < (0 + 1) * secs_per_day
      \<and> time_of_run ex_short_state ! i"
    by (intro exI [of _ 0]) (simp add: ex_short_state_def secs_per_day_def nth_append)
  have f0: "scheduling_failures ex_short_state = 0"
    by (simp add: ex_short_state_def ex_synth_state_def ex_state_def)
  have three: "(3::nat) = Suc 2" by simp
  from no_slot_failure [OF pm av ua d ex_short_no_free_run, of 3 2] free f0
  have "\<exists>g'. attempt 1 ex_lamp_activity 1 0 3 False ex_short_state
              = Some (Inr (Break (ex_short_state\<lparr>appliances := \<lambda>_. ex_appliance,
                    rng_state := g', scheduling_failures := 1\<rparr>)))
           \<and> rep_loop 1 ex_lamp_activity 1 0 3 False (Suc 2) ex_short_state
              = Some (Inr (ex_short_state\<lparr>appliances := \<lambda>_. ex_appliance,
                    rng_state := g', scheduling_failures := 1\<rparr>))"
    by simp
  then have "\<exists>g'. attempt 1 ex_lamp_activity 1 0 3 False ex_short_state
              = Some (Inr (Break (ex_short_state\<lparr>appliances := \<lambda>_. ex_appliance,
                    rng_state := g', scheduling_failures := 1\<rparr>)))
           \<and> rep_loop 1 ex_lamp_activity 1 0 3 False 3 ex_short_state
              = Some (Inr (ex_short_state\<lparr>appliances := \<lambda>_. ex_appliance,
                    rng_state := g', scheduling_failures := 1\<rparr>))"
    unfolding three .
  with pm av ua d ex_short_no_free_run show ?thesis by (intro conjI)
qed

section \<open>The committed windows of an activity\<close>

lemma slice_fill_False_mono:
  assumes "i < length bmp" "slice_fill bmp a b False ! i"
  shows "bmp ! i"
proof -
  obtain lo hi where r: "slice_range (length bmp) a b = (lo, hi)"
    by (cases "slice_range (length bmp) a b")
  from nth_slice_fill [OF r assms(1), of False] assms(2) show ?thesis
    by (simp split: if_splits)
qed

lemma slice_fill_window:
  assumes "0 \<le> t" "t + du \<le> int (length bmp)" "t \<le> x" "x < t + du"
  shows "\<not> slice_fill bmp t (t + du) False ! nat x"
proof -
  have du: "0 \<le> du" using assms(3,4) by simp
  have "nat t \<le> nat (t + du)" "nat (t + du) \<le> length bmp" using assms(1,2) du by arith+
  then have "slice_range (length bmp) (int (nat t)) (int (nat (t + du))) = (nat t, nat (t + du))"
    by (rule slice_range_nat)
  moreover have "int (nat t) = t" "int (nat (t + du)) = t + du" using assms(1) du by simp_all
  ultimately have r: "slice_range (length bmp) t (t + du) = (nat t, nat (t + du))" by simp
  have x: "nat x < length bmp" "nat t \<le> nat x" "nat x < nat (t + du)"
    using assms by arith+
  from nth_slice_fill [OF r x(1), of False] x show ?thesis by simp
qed

lemma fits_window_free:
  assumes f: "fits av t du (length av)" and t: "0 \<le> t" and x: "t \<le> x" "x < t + du"
  shows "nat x < length av \<and> av ! nat x"
proof -
  have du: "0 \<le> du" using x by simp
  from f have le: "t + du \<le> int (length av)"
    and ab: "all_bits (slice av t (t + du))" by (simp_all add: fits_def)
  have "nat t \<le> nat (t + du)" "nat (t + du) \<le> length av" using t du le by arith+
  then have "slice_range (length av) (int (nat t)) (int (nat (t + du))) = (nat t, nat (t + du))"
    by (rule slice_range_nat)
  moreover have "int (nat t) = t" "int (nat (t + du)) = t + du" using t du by simp_all
  ultimately have r: "slice_range (length av) t (t + du) = (nat t, nat (t + du))" by simp
  from ab all_bits_slice [OF r] have a: "\<forall>i. nat t \<le> i \<and> i < nat (t + du) \<longrightarrow> av ! i" by simp
  have "nat t \<le> nat x" "nat x < nat (t + du)" "nat x < length av" using t x le by arith+
  with a show ?thesis by blast
qed

lemma windows_inv_commit:
  assumes inv: "windows_inv tor0 st"
    and tor: "time_of_run st' = slice_fill (time_of_run st) t (t + du) False"
    and com: "committed st' = committed st @ [(t, du)]"
    and t0: "0 \<le> t"
    and le: "t + du \<le> int (length (time_of_run st))"
    and free: "\<forall>x. t \<le> x \<and> x < t + du \<longrightarrow>
                 nat x < length (time_of_run st) \<and> time_of_run st ! nat x"
  shows "windows_inv tor0 st'"
proof -
  let ?n = "length (committed st)"
  from inv have len: "length (time_of_run st) = length tor0"
    and mono: "\<forall>i < length tor0. time_of_run st ! i \<longrightarrow> tor0 ! i"
    and old: "\<forall>k < ?n. 0 \<le> fst (committed st ! k)
           \<and> (\<forall>x. fst (committed st ! k) \<le> x
                    \<and> x < fst (committed st ! k) + snd (committed st ! k) \<longrightarrow>
                 nat x < length tor0 \<and> tor0 ! nat x \<and> \<not> time_of_run st ! nat x)"
    and dis: "\<forall>k < ?n. \<forall>j < k.
           \<not> (\<exists>x. fst (committed st ! j) \<le> x
                    \<and> x < fst (committed st ! j) + snd (committed st ! j)
                    \<and> fst (committed st ! k) \<le> x
                    \<and> x < fst (committed st ! k) + snd (committed st ! k))"
    by (simp_all add: windows_inv_def)
  have l': "length (time_of_run st') = length tor0" using tor len by simp
  have keep: "\<not> time_of_run st' ! i" if "i < length tor0" "\<not> time_of_run st ! i" for i
    using that slice_fill_False_mono [of i "time_of_run st" t "t + du"] tor len by auto
  have mono': "\<forall>i < length tor0. time_of_run st' ! i \<longrightarrow> tor0 ! i"
    using keep mono by blast
  have nth_old: "committed st' ! k = committed st ! k" if "k < ?n" for k
    using that com by (simp add: nth_append)
  have nth_new: "committed st' ! ?n = (t, du)" using com by simp
  have lc: "length (committed st') = Suc ?n" using com by simp
  have new: "nat x < length tor0 \<and> tor0 ! nat x \<and> \<not> time_of_run st' ! nat x"
    if "t \<le> x" "x < t + du" for x
  proof -
    from free that have f: "nat x < length (time_of_run st)" "time_of_run st ! nat x" by blast+
    with len mono have "nat x < length tor0" "tor0 ! nat x" by simp_all
    moreover from slice_fill_window [OF t0 le that] tor have "\<not> time_of_run st' ! nat x" by simp
    ultimately show ?thesis by blast
  qed
  have win: "0 \<le> fst (committed st' ! k)
           \<and> (\<forall>x. fst (committed st' ! k) \<le> x
                    \<and> x < fst (committed st' ! k) + snd (committed st' ! k) \<longrightarrow>
                 nat x < length tor0 \<and> tor0 ! nat x \<and> \<not> time_of_run st' ! nat x)"
    if "k < length (committed st')" for k
  proof (cases "k < ?n")
    case True
    with old have o: "0 \<le> fst (committed st ! k)"
      "\<forall>x. fst (committed st ! k) \<le> x
                    \<and> x < fst (committed st ! k) + snd (committed st ! k) \<longrightarrow>
                 nat x < length tor0 \<and> tor0 ! nat x \<and> \<not> time_of_run st ! nat x" by blast+
    from o(2) keep have "\<forall>x. fst (committed st ! k) \<le> x
                    \<and> x < fst (committed st ! k) + snd (committed st ! k) \<longrightarrow>
                 nat x < length tor0 \<and> tor0 ! nat x \<and> \<not> time_of_run st' ! nat x" by blast
    with o(1) nth_old [OF True] show ?thesis by simp
  next
    case False
    with that lc have "k = ?n" by simp
    with nth_new t0 new show ?thesis by simp
  qed
  have dis': "\<not> (\<exists>x. fst (committed st' ! j) \<le> x
                    \<and> x < fst (committed st' ! j) + snd (committed st' ! j)
                    \<and> fst (committed st' ! k) \<le> x
                    \<and> x < fst (committed st' ! k) + snd (committed st' ! k))"
    if "k < length (committed st')" "j < k" for k j
  proof (cases "k < ?n")
    case True
    with that have "j < ?n" by simp
    with dis True that nth_old [OF True] nth_old [of j] show ?thesis by simp
  next
    case False
    with that lc have k: "k = ?n" and j: "j < ?n" by simp_all
    show ?thesis
    proof
      assume "\<exists>x. fst (committed st' ! j) \<le> x
                    \<and> x < fst (committed st' ! j) + snd (committed st' ! j)
                    \<and> fst (committed st' ! k) \<le> x
                    \<and> x < fst (committed st' ! k) + snd (committed st' ! k)"
      then obtain x where x: "fst (committed st ! j) \<le> x"
        "x < fst (committed st ! j) + snd (committed st ! j)" "t \<le> x" "x < t + du"
        using nth_old [OF j] nth_new k by auto
      from old j x(1,2) have "\<not> time_of_run st ! nat x" by blast
      moreover from free x(3,4) have "time_of_run st ! nat x" by blast
      ultimately show False by blast
    qed
  qed
  from l' mono' win dis' show ?thesis unfolding windows_inv_def by blast
qed

lemma windows_inv_frame:
  "windows_inv tor0 st \<Longrightarrow> time_of_run st' = time_of_run st \<Longrightarrow> committed st' = committed st
     \<Longrightarrow> windows_inv tor0 st'"
  by (simp add: windows_inv_def)

lemma attempt_Break:
  assumes "attempt fuel act num_days d reps vary st = Some (Inr (Break st'))"
  shows "time_of_run st' = time_of_run st \<and> committed st' = committed st
     \<and> powers st' = powers st \<and> events st' = events st
     \<and> user_available st' = user_available st"
proof -
  from assms obtain du so ue ul store' g1 where
    pm: "process_model fuel act (appliances st) vary (rng_state st)
           = Some (Inr ((du, so, ue, ul), store', g1))"
    by (auto simp: attempt_def split: option.splits sum.splits prod.splits)
  let ?st1 = "st\<lparr>appliances := store', rng_state := g1\<rparr>"
  show ?thesis
  proof (cases so)
    case None
    with assms pm have "st' = ?st1\<lparr>scheduling_failures := scheduling_failures ?st1 + reps\<rparr>"
      by (simp add: attempt_def)
    then show ?thesis by simp
  next
    case (Some sched)
    with assms pm have "place fuel act num_days d du sched ue ul ?st1 = Some (Inr (Break st'))"
      by (simp add: attempt_def)
    from place_Break [OF this] obtain g' n where
      "st' = ?st1\<lparr>rng_state := g', scheduling_failures := scheduling_failures ?st1 + n\<rparr>"
      by blast
    then show ?thesis by simp
  qed
qed

lemma attempt_Continue_window:
  assumes "attempt fuel act num_days d reps vary st = Some (Inr (Continue st'))"
  shows "\<exists>t du. time_of_run st' = slice_fill (time_of_run st) t (t + du) False
     \<and> committed st' = committed st @ [(t, du)]
     \<and> 0 \<le> t
     \<and> t + du \<le> int (length (time_of_run st))
     \<and> (\<forall>x. t \<le> x \<and> x < t + du \<longrightarrow>
           nat x < length (time_of_run st) \<and> time_of_run st ! nat x)"
proof -
  from attempt_Continue [OF assms] obtain du sched ue ul store' g1 where
    pl: "place fuel act num_days d du sched ue ul (st\<lparr>appliances := store', rng_state := g1\<rparr>)
           = Some (Inr (Continue st'))"
    by blast
  let ?st1 = "st\<lparr>appliances := store', rng_state := g1\<rparr>"
  let ?N = "num_days * secs_per_day"
  from place_Continue [OF pl] obtain av e l t g' where
    av: "availability_of num_days d ue ?st1 = Inr av"
    and fs: "find_start av e l du ?N (rng_state ?st1) = Inr (t, g')"
    and t1: "t \<noteq> - 1"
    and cm: "commit fuel act t du sched ue ul (?st1\<lparr>rng_state := g'\<rparr>) = Some (Inr st')"
    by blast
  from availability_of_Inr [OF av] have lav: "length av = ?N"
    and ltor: "length (time_of_run st) = ?N"
    and sub: "\<forall>i < ?N. av ! i \<longrightarrow> time_of_run st ! i"
    by simp_all
  from find_start_result [OF fs] t1 have t0: "0 \<le> t" and ft: "fits av t du (length av)"
    using lav by simp_all
  from ft have le: "t + du \<le> int (length (time_of_run st))"
    using lav ltor by (simp add: fits_def)
  have free: "nat x < length (time_of_run st) \<and> time_of_run st ! nat x"
    if "t \<le> x" "x < t + du" for x
    using fits_window_free [OF ft t0 that] sub lav ltor by simp
  from commit_effect [OF cm] have
    "time_of_run st' = slice_fill (time_of_run st) t (t + du) False"
    "committed st' = committed st @ [(t, du)]" by simp_all
  with t0 le free show ?thesis by blast
qed

lemma attempt_windows_inv:
  assumes inv: "windows_inv tor0 st"
    and at: "attempt fuel act num_days d reps vary st = Some (Inr r)"
  shows "windows_inv tor0 (case r of Break s \<Rightarrow> s | Continue s \<Rightarrow> s)"
proof (cases r)
  case (Break s)
  from attempt_Break [OF at [unfolded Break]] windows_inv_frame [OF inv] Break
  show ?thesis by simp
next
  case (Continue s)
  from attempt_Continue_window [OF at [unfolded Continue]] obtain t du where
    w: "time_of_run s = slice_fill (time_of_run st) t (t + du) False"
      "committed s = committed st @ [(t, du)]" "0 \<le> t"
      "t + du \<le> int (length (time_of_run st))"
      "\<forall>x. t \<le> x \<and> x < t + du \<longrightarrow> nat x < length (time_of_run st) \<and> time_of_run st ! nat x"
    by blast
  from windows_inv_commit [OF inv w] Continue show ?thesis by simp
qed

lemma rep_loop_windows_inv:
  "windows_inv tor0 st \<Longrightarrow> rep_loop fuel act num_days d reps vary n st = Some (Inr st')
     \<Longrightarrow> windows_inv tor0 st'"
proof (induction n arbitrary: st)
  case 0
  then show ?case by simp
next
  case (Suc n)
  from Suc.prems(2) obtain r where
    at: "attempt fuel act num_days d reps vary st = Some (Inr r)"
    by (auto split: option.splits sum.splits)
  from attempt_windows_inv [OF Suc.prems(1) at]
  have i: "windows_inv tor0 (case r of Break s \<Rightarrow> s | Continue s \<Rightarrow> s)" .
  show ?case
  proof (cases r)
    case (Break s)
    with Suc.prems(2) at have "st' = s" by simp
    with i Break show ?thesis by simp
  next
    case (Continue s)
    with Suc.prems(2) at have
      "rep_loop fuel act num_days d reps vary n s = Some (Inr st')" by simp
    from Suc.IH [OF _ this] i Continue show ?thesis by simp
  qed
qed

lemma day_step_windows_inv:
  assumes "windows_inv tor0 st"
    "day_step fuel act num_days runs_per_day vary d st = Some (Inr st')"
  shows "windows_inv tor0 st'"
proof -
  obtain reps g' where dr: "draw_reps runs_per_day (rng_state st) = (reps, g')"
    by (cases "draw_reps runs_per_day (rng_state st)")
  let ?st1 = "st\<lparr>rng_state := g', scheduled_activities := 0\<rparr>"
  from assms(2) dr obtain st2 where
    rl: "rep_loop fuel act num_days d reps vary (nat reps) ?st1 = Some (Inr st2)"
    and e: "st' = st2\<lparr>scheduling_success := scheduling_success st2 + scheduled_activities st2\<rparr>"
    by (auto simp: day_step_def split: option.splits sum.splits)
  have "windows_inv tor0 ?st1" using assms(1) by (rule windows_inv_frame) simp_all
  from rep_loop_windows_inv [OF this rl] have "windows_inv tor0 st2" .
  then show ?thesis unfolding e by (rule windows_inv_frame) simp_all
qed

lemma day_loop_windows_inv:
  "windows_inv tor0 st \<Longrightarrow> day_loop fuel act num_days runs_per_day vary ds st = Some (Inr st')
     \<Longrightarrow> windows_inv tor0 st'"
proof (induction ds arbitrary: st)
  case Nil
  then show ?case by simp
next
  case (Cons d ds)
  from Cons.prems(2) obtain st1 where
    a: "day_step fuel act num_days runs_per_day vary d st = Some (Inr st1)"
    and b: "day_loop fuel act num_days runs_per_day vary ds st1 = Some (Inr st')"
    by (auto split: option.splits sum.splits)
  from day_step_windows_inv [OF Cons.prems(1) a] Cons.IH [OF _ b] show ?case by simp
qed

lemma ex_lamp_model_any_store:
  "process_model (Suc fuel) ex_lamp_activity store False (\<lambda>_. 0)
     = Some (Inr ((10, Some [(0, (Some 0, 10))], None, 0), store, (\<lambda>_. 0)))"
  by (simp add: process_model_def process_state_def state_duration_def advance_def
      next_state_def lookup_binding_def dict_len_def random_randint_def random_random_def
      rng_tail_const ex_lamp_activity_def ex_row_def)

lemma index_true_skip: "index_true (replicate k False @ bs) = map_option ((+) k) (index_true bs)"
  by (induction k) (simp_all add: option.map_comp comp_def option.map_ident)

lemma ex_lit_availability:
  "availability_of (Suc 0) 0 None ex_lit_state = Inr (replicate 10 False @ replicate 86390 True)"
proof -
  have "replicate 86400 True = replicate 10 True @ replicate 86390 True"
    by (simp add: replicate_add [symmetric])
  then have "map2 (\<and>) (replicate 10 False @ replicate 86390 True) (replicate 86400 True)
      = replicate 10 False @ replicate 86390 True"
    by simp
  then show ?thesis
    by (simp add: availability_of_def day_filter_one bit_and_def ex_lit_state_def)
qed

lemma ex_lit_earliest:
  "get_earliest (replicate 10 False @ replicate 86390 True) = Some 10"
  by (simp add: get_earliest_def index_true_skip index_true_replicate_True)

lemma ex_lit_latest:
  "get_latest (replicate 10 False @ replicate 86390 True) = Some 86400"
proof -
  have "index_true (replicate n True @ bs) = Some 0" if "0 < n" for n bs
    using that by (cases n) simp_all
  then have "index_true (replicate 86390 True @ replicate 10 False) = Some 0" by simp
  then show ?thesis by (simp add: get_latest_def get_earliest_def)
qed

lemma ex_lit_find:
  "find_start (replicate 10 False @ replicate 86390 True) 10 86400 10 86400 (\<lambda>_. 0)
     = Inr (10, \<lambda>_. 0)"
proof (rule find_start_first)
  show "random_randint (int 10) (int 86400 + 1 - 10) (\<lambda>_. 0) = Inr (10, \<lambda>_. 0)"
    by (simp add: random_randint_def rng_tail_const)
  show "fits (replicate 10 False @ replicate 86390 True) 10 10 86400"
    by (simp add: fits_def slice_def slice_range_def slice_bound_def all_bits_def list_all_iff)
  show "(10::int) \<noteq> - 1" by simp
qed

lemma ex_lit_synth:
  "appliance_synthesize fuel
     (ex_appliance\<lparr>busy := replicate 10 True @ replicate 86390 False,
                   total_power := replicate 10 60 @ replicate 86390 0\<rparr>) 10 10 (\<lambda>_. 0)
   = Some (Inr (replicate 10 0 @ replicate 10 60 @ replicate 86380 0,
                ex_appliance\<lparr>busy := replicate 10 True @ replicate 10 True @ replicate 86380 False,
                   total_power := replicate 10 60 @ replicate 10 60 @ replicate 86380 0\<rparr>,
                \<lambda>_. 0))"
  using onoff_comps [of 10 86400 fuel "\<lambda>_. 0"]
  by (simp add: appliance_synthesize_def ex_appliance_def np_add_def map2_add_zeros
      slice_fill_def slice_range_def slice_bound_def)

lemma ex_lit_commit:
  "commit fuel ex_lamp_activity 10 10 [(0, (Some 0, 10))] None 0 ex_lit_state
     = Some (Inr ex_lit2_state)"
  by (simp add: commit_def ex_lit_synth ex_lit_state_def ex_synth_state_def ex_state_def
      np_add_def Let_def slice_fill_def slice_range_def slice_bound_def ex_lamp_activity_def
      map2_add_zeros ex_lit2_state_def, simp add: ex_appliance_def)

lemma ex_lit_place:
  "place fuel ex_lamp_activity (Suc 0) 0 10 [(0, (Some 0, 10))] None 0 ex_lit_state
     = Some (Inr (Continue ex_lit2_state))"
proof -
  have s: "ex_lit_state\<lparr>rng_state := \<lambda>_. 0\<rparr> = ex_lit_state"
    by (simp add: ex_lit_state_def ex_synth_state_def ex_state_def)
  have t: "time_of_run ex_lit_state = replicate 10 False @ replicate 86390 True"
    "rng_state ex_lit_state = (\<lambda>_. 0)"
    by (simp_all add: ex_lit_state_def ex_synth_state_def ex_state_def)
  have v: "visualize_map_row (replicate 10 False @ replicate 86390 True) 0 = Inr ()"
    by (simp add: visualize_map_row_def secs_per_day_def)
  have td: "bit_and (time_of_run ex_lit_state) (day_filter (Suc 0) 0)
      = Inr (replicate 10 False @ replicate 86390 True)"
    using ex_lit_availability by (simp add: availability_of_def)
  have "(if (0::int) \<noteq> 0 then visualize_map_row (user_available ex_lit_state) 0 else Inr ())
      = Inr ()" by simp
  from place_unfold [OF this _ ex_lit_availability v td, of fuel ex_lamp_activity 10
      "[(0, (Some 0, 10))]"] v t
  show ?thesis
    by (simp add: ex_lit_earliest ex_lit_latest secs_per_day_def ex_lit_find s ex_lit_commit)
qed

lemma ex_lit_attempt:
  "attempt (Suc fuel) ex_lamp_activity (Suc 0) 0 reps False ex_lit_state
     = Some (Inr (Continue ex_lit2_state))"
proof -
  have s: "ex_lit_state\<lparr>rng_state := \<lambda>_. 0\<rparr> = ex_lit_state"
    by (simp add: ex_lit_state_def ex_synth_state_def ex_state_def)
  have t: "rng_state ex_lit_state = (\<lambda>_. 0)"
    by (simp add: ex_lit_state_def ex_synth_state_def ex_state_def)
  show ?thesis
    by (simp add: attempt_def t ex_lamp_model_any_store s ex_lit_place)
qed

lemma ex_rep_loop:
  "rep_loop (Suc fuel) ex_lamp_activity (Suc 0) 0 reps False (Suc (Suc 0)) ex_synth_state
     = Some (Inr ex_lit2_state)"
  by (simp add: ex_lamp_attempt ex_lit_attempt)

lemma ex_draw_reps: "draw_reps 2 (\<lambda>_. 0) = (2, \<lambda>_. 0)"
  by (simp add: draw_reps_def random_random_def rng_tail_const py_round_def)

lemma ex_day_step:
  "day_step (Suc fuel) ex_lamp_activity (Suc 0) 2 False 0 ex_synth_state
     = Some (Inr (ex_lit2_state\<lparr>scheduling_success := 2\<rparr>))"
proof -
  have s: "ex_synth_state\<lparr>rng_state := \<lambda>_. 0, scheduled_activities := 0\<rparr> = ex_synth_state"
    by (simp add: ex_synth_state_def ex_state_def)
  have t: "rng_state ex_synth_state = (\<lambda>_. 0)"
    by (simp add: ex_synth_state_def ex_state_def)
  have n: "nat 2 = Suc (Suc 0)" by simp
  have l: "scheduling_success ex_lit2_state = 0" "scheduled_activities ex_lit2_state = 2"
    by (simp_all add: ex_lit2_state_def ex_synth_state_def ex_state_def)
  show ?thesis
    unfolding day_step_def t ex_draw_reps prod.case s n ex_rep_loop by (simp add: l)
qed

lemma ex_run:
  "activity_synthesize (Suc fuel) ex_lamp_activity (Suc 0) 2 False ex_state
     = Some (Inr (replicate 10 60 @ replicate 10 60 @ replicate 86380 0,
                  ex_lit2_state\<lparr>scheduling_success := 2\<rparr>))"
proof -
  have b: "fst (all_bindings_satisfied ex_lamp_activity)"
    by (simp add: all_bindings_satisfied_def ex_lamp_activity_def)
  have s: "ex_state\<lparr>powers := (if activity_type ex_lamp_activity \<in> dom (powers ex_state)
                                   then powers ex_state
                                   else (powers ex_state)(activity_type ex_lamp_activity \<mapsto>
                                          zeros (Suc 0 * secs_per_day))),
                      activity_power := zeros (Suc 0 * secs_per_day),
                      scheduling_failures := 0,
                      scheduling_success := 0,
                      scheduled_activities := 0,
                      committed := []\<rparr> = ex_synth_state"
    by (simp add: ex_synth_state_def ex_state_def ex_lamp_activity_def zeros_def secs_per_day_def)
  have u: "[0..<Suc 0] = [0]" by simp
  have a: "activity_power (ex_lit2_state\<lparr>scheduling_success := 2\<rparr>)
      = replicate 10 60 @ replicate 10 60 @ replicate 86380 0"
    by (simp add: ex_lit2_state_def)
  show ?thesis
    unfolding activity_synthesize_def Let_def s u using b by (simp add: ex_day_step a)
qed

text \<open>
  Claim C3. In a run of \<open>ActivityModel.synthesize\<close> that returns, no second belongs to two
  committed windows of the activity; every committed window \<open>[start, start + duration)\<close>
  starts at a non-negative offset and lies where the time-of-run bitmap was free when the
  run began (the bitmap frees nothing during the run, so it was free when the window was
  chosen), and all of it is busy at the end of the run; and no second that is busy in the
  time-of-run bitmap is ever free again.
\<close>

theorem committed_windows_disjoint:
  assumes run: "activity_synthesize fuel act num_days runs_per_day vary st = Some (Inr (p, st'))"
    and emp: "committed st = []"
  shows "length (time_of_run st') = length (time_of_run st)
     \<and> (\<forall>i < length (time_of_run st). \<not> time_of_run st ! i \<longrightarrow> \<not> time_of_run st' ! i)
     \<and> (\<forall>k < length (committed st').
           0 \<le> fst (committed st' ! k)
           \<and> (\<forall>x. fst (committed st' ! k) \<le> x
                    \<and> x < fst (committed st' ! k) + snd (committed st' ! k) \<longrightarrow>
                 nat x < length (time_of_run st) \<and> time_of_run st ! nat x
                 \<and> \<not> time_of_run st' ! nat x))
     \<and> (\<forall>k < length (committed st'). \<forall>j < k.
           \<not> (\<exists>x. fst (committed st' ! j) \<le> x
                    \<and> x < fst (committed st' ! j) + snd (committed st' ! j)
                    \<and> fst (committed st' ! k) \<le> x
                    \<and> x < fst (committed st' ! k) + snd (committed st' ! k)))"
proof -
  have "windows_inv (time_of_run st) st'"
  proof (cases "fst (all_bindings_satisfied act)")
    case False
    with run have "st' = st" by (simp add: activity_synthesize_def)
    with emp show ?thesis by (simp add: windows_inv_def)
  next
    case True
    from run True obtain st0 where
      dl: "day_loop fuel act num_days runs_per_day vary [0..<num_days] st0 = Some (Inr st')"
      and s0: "time_of_run st0 = time_of_run st" "committed st0 = []"
      by (auto simp: activity_synthesize_def Let_def split: option.splits sum.splits)
    have "windows_inv (time_of_run st) st0" using s0 by (simp add: windows_inv_def)
    from day_loop_windows_inv [OF this dl] show ?thesis .
  qed
  then show ?thesis unfolding windows_inv_def by blast
qed

theorem committed_windows_disjoint_witness:
  "activity_synthesize 1 ex_lamp_activity 1 2 False ex_state
     = Some (Inr (replicate 10 60 @ replicate 10 60 @ replicate 86380 0,
                  ex_lit2_state\<lparr>scheduling_success := 2\<rparr>))
   \<and> committed ex_state = []
   \<and> committed (ex_lit2_state\<lparr>scheduling_success := 2\<rparr>) = [(0, 10), (10, 10)]
   \<and> length (time_of_run (ex_lit2_state\<lparr>scheduling_success := 2\<rparr>)) = length (time_of_run ex_state)
   \<and> time_of_run ex_state ! 15
   \<and> \<not> time_of_run (ex_lit2_state\<lparr>scheduling_success := 2\<rparr>) ! 15
   \<and> \<not> (\<exists>x::int. 0 \<le> x \<and> x < 0 + 10 \<and> 10 \<le> x \<and> x < 10 + 10)"
proof -
  let ?S = "ex_lit2_state\<lparr>scheduling_success := 2\<rparr>"
  have run: "activity_synthesize 1 ex_lamp_activity 1 2 False ex_state
     = Some (Inr (replicate 10 60 @ replicate 10 60 @ replicate 86380 0, ?S))"
    using ex_run [of 0] by simp
  have emp: "committed ex_state = []" by (simp add: ex_state_def)
  have com: "committed ?S = [(0, 10), (10, 10)]" by (simp add: ex_lit2_state_def)
  note th = committed_windows_disjoint [OF run emp]
  from th have len: "length (time_of_run ?S) = length (time_of_run ex_state)" by blast
  from th have win: "\<forall>k < length (committed ?S).
           0 \<le> fst (committed ?S ! k)
           \<and> (\<forall>x. fst (committed ?S ! k) \<le> x
                    \<and> x < fst (committed ?S ! k) + snd (committed ?S ! k) \<longrightarrow>
                 nat x < length (time_of_run ex_state) \<and> time_of_run ex_state ! nat x
                 \<and> \<not> time_of_run ?S ! nat x)" by blast
  from th have dis: "\<forall>k < length (committed ?S). \<forall>j < k.
           \<not> (\<exists>x. fst (committed ?S ! j) \<le> x
                    \<and> x < fst (committed ?S ! j) + snd (committed ?S ! j)
                    \<and> fst (committed ?S ! k) \<le> x
                    \<and> x < fst (committed ?S ! k) + snd (committed ?S ! k))" by blast
  have k1: "(1::nat) < length (committed ?S)" using com by simp
  from win k1 have "\<forall>x. fst (committed ?S ! 1) \<le> x
                    \<and> x < fst (committed ?S ! 1) + snd (committed ?S ! 1) \<longrightarrow>
                 nat x < length (time_of_run ex_state) \<and> time_of_run ex_state ! nat x
                 \<and> \<not> time_of_run ?S ! nat x" by blast
  then have "fst (committed ?S ! 1) \<le> 15
                    \<and> 15 < fst (committed ?S ! 1) + snd (committed ?S ! 1) \<longrightarrow>
                 nat 15 < length (time_of_run ex_state) \<and> time_of_run ex_state ! nat 15
                 \<and> \<not> time_of_run ?S ! nat 15" by (rule spec)
  with com have b: "time_of_run ex_state ! 15" "\<not> time_of_run ?S ! 15" by simp_all
  from dis k1 have "\<forall>j < 1. \<not> (\<exists>x. fst (committed ?S ! j) \<le> x
                    \<and> x < fst (committed ?S ! j) + snd (committed ?S ! j)
                    \<and> fst (committed ?S ! 1) \<le> x
                    \<and> x < fst (committed ?S ! 1) + snd (committed ?S ! 1))" by blast
  then have "\<not> (\<exists>x. fst (committed ?S ! 0) \<le> x
                    \<and> x < fst (committed ?S ! 0) + snd (committed ?S ! 0)
                    \<and> fst (committed ?S ! 1) \<le> x
                    \<and> x < fst (committed ?S ! 1) + snd (committed ?S ! 1))" by simp
  with com have d: "\<not> (\<exists>x::int. 0 \<le> x \<and> x < 0 + 10 \<and> 10 \<le> x \<and> x < 10 + 10)" by simp
  from run emp com len b d show ?thesis by (intro conjI)
qed

section \<open>The power dictionary through the loops\<close>






section \<open>The total as the sum of the users' arrays\<close>














section \<open>A run of the whole synthesis\<close>

lemma scene_model:
  "process_model (Suc fuel) (ex_lamp_activity\<lparr>activity_type := ty\<rparr>) store False (\<lambda>_. 0)
     = Some (Inr ((10, Some [(0, (Some 0, 10))], None, 0), store, (\<lambda>_. 0)))"
  by (simp add: process_model_def process_state_def state_duration_def advance_def
      next_state_def lookup_binding_def dict_len_def random_randint_def random_random_def
      rng_tail_const ex_lamp_activity_def ex_row_def)

lemma scene_commit:
  assumes syn: "appliance_synthesize fuel (store 0) 0 10 npg = Some (Inr (c, a', npg'))"
    and lc: "length c = 86400" and pw: "pw ty = Some (replicate 86400 0)"
  shows "commit fuel (ex_lamp_activity\<lparr>activity_type := ty\<rparr>) 0 10 [(0, (Some 0, 10))] None 0
           (ex_scene pw store npg)
     = Some (Inr (ex_scene_lit ty (appliance_type (store 0)) (pw(ty \<mapsto> c)) (store(0 := a')) npg' c))"
proof -
  have z: "map2 (+) (replicate 86400 0) c = c" using lc by (simp add: map2_add_zeros)
  have l: "length c = 86400 \<longleftrightarrow> True" using lc by simp
  show ?thesis
    by (simp add: commit_def ex_scene_def ex_scene_lit_def ex_state_def syn np_add_def Let_def
        slice_fill_def slice_range_def slice_bound_def ex_lamp_activity_def pw z l)
qed

lemma scene_availability:
  "availability_of (Suc 0) 0 None (ex_scene pw store npg) = Inr (replicate 86400 True)"
  by (simp add: availability_of_def day_filter_one bit_and_def ex_scene_def ex_state_def)

lemma scene_place:
  assumes syn: "appliance_synthesize fuel (store 0) 0 10 npg = Some (Inr (c, a', npg'))"
    and lc: "length c = 86400" and pw: "pw ty = Some (replicate 86400 0)"
  shows "place fuel (ex_lamp_activity\<lparr>activity_type := ty\<rparr>) (Suc 0) 0 10 [(0, (Some 0, 10))]
           None 0 (ex_scene pw store npg)
     = Some (Inr (Continue
          (ex_scene_lit ty (appliance_type (store 0)) (pw(ty \<mapsto> c)) (store(0 := a')) npg' c)))"
proof -
  have s: "(ex_scene pw store npg)\<lparr>rng_state := \<lambda>_. 0\<rparr> = ex_scene pw store npg"
    by (simp add: ex_scene_def ex_state_def)
  have t: "time_of_run (ex_scene pw store npg) = replicate 86400 True"
    "rng_state (ex_scene pw store npg) = (\<lambda>_. 0)"
    by (simp_all add: ex_scene_def ex_state_def)
  have v: "visualize_map_row (replicate 86400 True) 0 = Inr ()"
    by (simp add: visualize_map_row_def secs_per_day_def)
  have td: "bit_and (time_of_run (ex_scene pw store npg)) (day_filter (Suc 0) 0)
      = Inr (replicate 86400 True)"
    by (simp add: t day_filter_one bit_and_def)
  have "(if (0::int) \<noteq> 0 then visualize_map_row (user_available (ex_scene pw store npg)) 0
         else Inr ()) = Inr ()" by simp
  from place_unfold [OF this _ scene_availability v td,
      of fuel "ex_lamp_activity\<lparr>activity_type := ty\<rparr>" 10 "[(0, (Some 0, 10))]"] v t
  show ?thesis
    by (simp add: get_earliest_all_free get_latest_all_free secs_per_day_def ex_lamp_find s
        scene_commit [where store = store and pw = pw and ty = ty, OF syn lc pw])
qed

lemma scene_attempt:
  assumes syn: "appliance_synthesize (Suc fuel) (store 0) 0 10 npg = Some (Inr (c, a', npg'))"
    and lc: "length c = 86400" and pw: "pw ty = Some (replicate 86400 0)"
  shows "attempt (Suc fuel) (ex_lamp_activity\<lparr>activity_type := ty\<rparr>) (Suc 0) 0 reps False
           (ex_scene pw store npg)
     = Some (Inr (Continue
          (ex_scene_lit ty (appliance_type (store 0)) (pw(ty \<mapsto> c)) (store(0 := a')) npg' c)))"
proof -
  have s: "(ex_scene pw store npg)\<lparr>appliances := store, rng_state := \<lambda>_. 0\<rparr>
      = ex_scene pw store npg"
    by (simp add: ex_scene_def ex_state_def)
  have t: "appliances (ex_scene pw store npg) = store"
    "rng_state (ex_scene pw store npg) = (\<lambda>_. 0)"
    by (simp_all add: ex_scene_def ex_state_def)
  show ?thesis
    by (simp add: attempt_def t scene_model s scene_place [where store = store and pw = pw and ty = ty, OF syn lc pw])
qed

lemma ex_draw_reps_half: "draw_reps (1 / 2) (\<lambda>_. 0) = (1, \<lambda>_. 0)"
  by (simp add: draw_reps_def random_random_def rng_tail_const)

lemma scene_day_step:
  assumes syn: "appliance_synthesize (Suc fuel) (store 0) 0 10 npg = Some (Inr (c, a', npg'))"
    and lc: "length c = 86400" and pw: "pw ty = Some (replicate 86400 0)"
  shows "day_step (Suc fuel) (ex_lamp_activity\<lparr>activity_type := ty\<rparr>) (Suc 0) (1 / 2) False 0
           (ex_scene pw store npg)
     = Some (Inr ((ex_scene_lit ty (appliance_type (store 0)) (pw(ty \<mapsto> c)) (store(0 := a')) npg' c)
                    \<lparr>scheduling_success := 1\<rparr>))"
proof -
  have s: "(ex_scene pw store npg)\<lparr>rng_state := \<lambda>_. 0, scheduled_activities := 0\<rparr>
      = ex_scene pw store npg"
    by (simp add: ex_scene_def ex_state_def)
  have t: "rng_state (ex_scene pw store npg) = (\<lambda>_. 0)"
    by (simp add: ex_scene_def ex_state_def)
  have n: "nat 1 = Suc 0" by simp
  note at = scene_attempt [where store = store and pw = pw and ty = ty, OF syn lc pw, of 1]
  have rl: "rep_loop (Suc fuel) (ex_lamp_activity\<lparr>activity_type := ty\<rparr>) (Suc 0) 0 1 False (Suc 0)
      (ex_scene pw store npg)
      = Some (Inr (ex_scene_lit ty (appliance_type (store 0)) (pw(ty \<mapsto> c)) (store(0 := a')) npg' c))"
    by (simp add: at)
  show ?thesis
    unfolding day_step_def t ex_draw_reps_half prod.case s n rl
    by (simp add: ex_scene_lit_def ex_scene_def ex_state_def)
qed

lemma scene_activity:
  assumes syn: "appliance_synthesize (Suc fuel) (store 0) 0 10 npg = Some (Inr (c, a', npg'))"
    and lc: "length c = 86400"
    and pw: "pws ty = None \<or> pws ty = Some (replicate 86400 0)"
  shows "activity_synthesize (Suc fuel) (ex_lamp_activity\<lparr>activity_type := ty\<rparr>) (Suc 0) (1 / 2)
           False (ex_state\<lparr>powers := pws, appliances := store, np_state := npg\<rparr>)
     = Some (Inr (c,
          (ex_scene_lit ty (appliance_type (store 0)) (pws(ty \<mapsto> c)) (store(0 := a')) npg' c)
             \<lparr>scheduling_success := 1\<rparr>))"
proof -
  let ?pw = "pws(ty \<mapsto> replicate 86400 0)"
  have b: "fst (all_bindings_satisfied (ex_lamp_activity\<lparr>activity_type := ty\<rparr>))"
    by (simp add: all_bindings_satisfied_def ex_lamp_activity_def)
  have s: "(ex_state\<lparr>powers := pws, appliances := store, np_state := npg\<rparr>)
     \<lparr>powers := (if activity_type (ex_lamp_activity\<lparr>activity_type := ty\<rparr>)
                      \<in> dom (powers (ex_state\<lparr>powers := pws, appliances := store, np_state := npg\<rparr>))
                   then powers (ex_state\<lparr>powers := pws, appliances := store, np_state := npg\<rparr>)
                   else (powers (ex_state\<lparr>powers := pws, appliances := store, np_state := npg\<rparr>))
                          (activity_type (ex_lamp_activity\<lparr>activity_type := ty\<rparr>) \<mapsto>
                             zeros (Suc 0 * secs_per_day))),
       activity_power := zeros (Suc 0 * secs_per_day),
       scheduling_failures := 0,
       scheduling_success := 0,
       scheduled_activities := 0,
       committed := []\<rparr> = ex_scene ?pw store npg"
  proof (cases "ty \<in> dom pws")
    case True
    with pw have "pws ty = Some (replicate 86400 0)" by auto
    then have "pws(ty \<mapsto> replicate 86400 0) = pws" by (rule map_upd_triv)
    with True show ?thesis
      by (simp add: ex_scene_def ex_state_def zeros_def secs_per_day_def)
  next
    case False
    then show ?thesis
      by (simp add: ex_scene_def ex_state_def zeros_def secs_per_day_def)
  qed
  have u: "[0..<Suc 0] = [0]" by simp
  have q: "?pw ty = Some (replicate 86400 0)" by simp
  have e: "?pw(ty \<mapsto> c) = pws(ty \<mapsto> c)" by simp
  note ds = scene_day_step [where store = store and pw = ?pw and ty = ty, OF syn lc q,
      unfolded e]
  have a: "activity_power
      ((ex_scene_lit ty (appliance_type (store 0)) (pws(ty \<mapsto> c)) (store(0 := a')) npg' c)
             \<lparr>scheduling_success := 1\<rparr>) = c"
    by (simp add: ex_scene_lit_def)
  show ?thesis
    unfolding activity_synthesize_def Let_def s u using b by (simp add: ds a)
qed

lemma shuffled_single: "shuffled [x] g = ([x], rng_tail g)"
  by (simp add: shuffled_def random_random_def)

lemma scene_user:
  assumes syn: "appliance_synthesize (Suc fuel) (store 0) 0 10 npg = Some (Inr (c, a', npg'))"
    and lc: "length c = 86400"
    and pw: "pws ty = None \<or> pws ty = Some (replicate 86400 0)"
    and a1: "add_to (pws(ty \<mapsto> c)) ''alice'' c = Inr p1"
    and a2: "add_to p1 ''total'' c = Inr p2"
  shows "\<exists>u' st'. activities_loop (Suc fuel) False (activities (ex_user ty)) (ex_user ty)
            (ex_state\<lparr>powers := pws, appliances := store, np_state := npg,
                      time_of_run := tr, user_available := ua\<rparr>)
          = Some (Inr (u', st')) \<and> powers st' = p2"
proof -
  let ?F = "(ex_scene_lit ty (appliance_type (store 0)) (pws(ty \<mapsto> c)) (store(0 := a')) npg' c)
             \<lparr>scheduling_success := 1\<rparr>"
  have j: "ex_state\<lparr>powers := pws, appliances := store, np_state := npg,
                      time_of_run := replicate 86400 True,
                      user_available := replicate 86400 True\<rparr>
      = ex_state\<lparr>powers := pws, appliances := store, np_state := npg\<rparr>"
    by (simp add: ex_state_def)
  have pf: "powers ?F = pws(ty \<mapsto> c)" by (simp add: ex_scene_lit_def ex_scene_def)
  note sa = scene_activity [where store = store and ty = ty and pws = pws, OF syn lc pw]
  show ?thesis
    by (simp add: ex_user_def j sa pf a1 a2)
qed

lemma scene_main:
  assumes syn: "appliance_synthesize (Suc fuel) (store 0) 0 10 npg = Some (Inr (c, a', npg'))"
    and lc: "length c = 86400"
    and a1: "add_to ([''total'' \<mapsto> replicate 86400 0, ''alice'' \<mapsto> replicate 86400 0](ty \<mapsto> c))
               ''alice'' c = Inr p1"
    and a2: "add_to p1 ''total'' c = Inr p2"
  shows "\<exists>us st. main_synthesis (Suc fuel) False (Suc 0) [ex_user ty] store (\<lambda>_. 0) npg
                  = Some (Inr (us, st)) \<and> powers st = p2"
proof -
  let ?pws = "[''total'' \<mapsto> replicate 86400 0, ''alice'' \<mapsto> replicate 86400 (0::real)]"
  have pw: "?pws ty = None \<or> ?pws ty = Some (replicate 86400 0)" by simp
  from scene_user [where store = store and ty = ty and pws = ?pws and tr = "[]" and ua = "[]",
      OF syn lc pw a1 a2]
  obtain u' st' where
    al: "activities_loop (Suc fuel) False (activities (ex_user ty)) (ex_user ty)
            (ex_state\<lparr>powers := ?pws, appliances := store, np_state := npg,
                      time_of_run := [], user_available := []\<rparr>)
          = Some (Inr (u', st'))" and p: "powers st' = p2"
    by blast
  have "user_synthesize (Suc fuel) False (ex_user ty)
          \<lparr>powers = [''total'' \<mapsto> zeros (Suc 0 * secs_per_day)], events = [],
           time_of_run = [], user_available = [], appliances = store, rng_state = \<lambda>_. 0,
           np_state = npg, activity_power = [], scheduling_failures = 0,
           scheduling_success = 0, scheduled_activities = 0, committed = []\<rparr>
      = activities_loop (Suc fuel) False (activities (ex_user ty)) (ex_user ty)
            (ex_state\<lparr>powers := ?pws, appliances := store, np_state := npg,
                      time_of_run := [], user_available := []\<rparr>)"
    by (simp add: user_synthesize_def Let_def ex_state_def ex_user_def shuffled_single
        rng_tail_const zeros_def secs_per_day_def)
  then have "main_synthesis (Suc fuel) False (Suc 0) [ex_user ty] store (\<lambda>_. 0) npg
      = Some (Inr ([u'], st'))"
    unfolding main_synthesis_def users_loop.simps al by simp
  with p show ?thesis by simp
qed

lemma map2_add_blocks:
  "map2 (+) (replicate m (a::real) @ replicate n b) (replicate m c @ replicate n d)
     = replicate m (a + c) @ replicate n (b + d)"
  by (simp add: zip_replicate)




lemma np_tail_const: "np_tail (\<lambda>_. c) = (\<lambda>_. c)"
  by (simp add: np_tail_def)

lemma np_random_normals_const:
  "0 \<le> s \<Longrightarrow> np_random_normals m s n (\<lambda>_. c) = Inr (replicate n (m + s * c), \<lambda>_. c)"
  by (induction n) (simp_all add: np_random_normal_def np_tail_const)

lemma bound_within:
  "low c \<le> x \<Longrightarrow> x \<le> high c \<Longrightarrow> bound fuel c x g = Some (Inr (x, g))"
  by simp

lemma bound_all_within:
  "\<forall>x \<in> set xs. low c \<le> x \<and> x \<le> high c \<Longrightarrow> bound_all fuel c xs g = Some (Inr (xs, g))"
proof (induction xs)
  case Nil
  then show ?case by simp
next
  case (Cons x xs)
  then have "bound fuel c x g = Some (Inr (x, g))" by (simp del: bound.simps add: bound_within)
  with Cons show ?case by (simp del: bound.simps)
qed

lemma noise_comps:
  assumes "- 5 \<le> v" "v \<le> 5"
  shows "synthesize_comps fuel [NoiseModel 1 0 5 1 10] 0 10 0 (zeros 86400) (\<lambda>_. v)
           = Some (Inr (replicate 10 (5 + v) @ replicate 86390 0, \<lambda>_. v))"
proof -
  have p: "py_round 10 = 10"
    using py_round_int [of 10] by simp
  have n: "np_random_normals 5 1 10 (\<lambda>_. v) = Inr (replicate 10 (5 + 1 * v), \<lambda>_. v)"
    by (rule np_random_normals_const) simp
  have b: "bound_all fuel (NoiseModel 1 0 5 1 10) (replicate 10 (5 + v)) (\<lambda>_. v)
      = Some (Inr (replicate 10 (5 + v), \<lambda>_. v))"
    by (rule bound_all_within) (use assms in simp)
  have s: "np_add_slice (zeros 86400) 0 10 (replicate 10 (5 + v))
      = Inr (replicate 10 (5 + v) @ replicate 86390 0)"
    using np_add_slice_zeros [of 0 10 86400 "5 + v"] by simp
  have c: "component_synthesize fuel (NoiseModel 1 0 5 1 10) 10 (\<lambda>_. v)
      = Some (Inr (replicate 10 (5 + v), \<lambda>_. v))"
    using n b by simp
  show ?thesis
    by (simp add: p s c Let_def del: component_synthesize.simps)
qed

lemma ex_noisy_synth:
  assumes "- 5 \<le> v" "v \<le> 5"
  shows "appliance_synthesize fuel ex_noisy_appliance 0 10 (\<lambda>_. v)
     = Some (Inr (replicate 10 (5 + v) @ replicate 86390 0,
                  ex_noisy_appliance\<lparr>total_power := replicate 10 (5 + v) @ replicate 86390 0,
                     busy := replicate 10 True @ replicate 86390 False\<rparr>,
                  \<lambda>_. v))"
  using noise_comps [OF assms, of fuel]
  by (simp add: appliance_synthesize_def ex_noisy_appliance_def ex_appliance_def np_add_def
      map2_add_zeros slice_fill_def slice_range_def slice_bound_def)

lemma ex_noisy_run:
  assumes "- 5 \<le> v" "v \<le> 5"
  shows "\<exists>us st. main_synthesis (Suc fuel) False (Suc 0) [ex_user ''light''] (\<lambda>_. ex_noisy_appliance)
                   (\<lambda>_. 0) (\<lambda>_. v) = Some (Inr (us, st))
     \<and> powers st = [''total'' \<mapsto> replicate 10 (5 + v) @ replicate 86390 0,
                     ''alice'' \<mapsto> replicate 10 (5 + v) @ replicate 86390 0,
                     ''light'' \<mapsto> replicate 10 (5 + v) @ replicate 86390 0]"
proof -
  let ?c = "replicate 10 (5 + v) @ replicate 86390 0"
  have lc: "length ?c = 86400" by simp
  have a1: "add_to ([''total'' \<mapsto> replicate 86400 0, ''alice'' \<mapsto> replicate 86400 0](''light'' \<mapsto> ?c))
              ''alice'' ?c = Inr [''total'' \<mapsto> replicate 86400 0, ''alice'' \<mapsto> ?c, ''light'' \<mapsto> ?c]"
    by (simp add: add_to_def np_add_def map2_add_zeros fun_upd_twist)
  have a2: "add_to [''total'' \<mapsto> replicate 86400 0, ''alice'' \<mapsto> ?c, ''light'' \<mapsto> ?c] ''total'' ?c
      = Inr [''total'' \<mapsto> ?c, ''alice'' \<mapsto> ?c, ''light'' \<mapsto> ?c]"
    by (simp add: add_to_def np_add_def map2_add_zeros fun_upd_twist)
  show ?thesis
    by (rule scene_main [where store = "\<lambda>_. ex_noisy_appliance", OF ex_noisy_synth [OF assms] lc a1 a2])
qed

section \<open>The total and the users' arrays\<close>




section \<open>The noise and the seed\<close>

text \<open>
  Claim C1 fails in the code: the samples of a noise component are drawn with
  \<open>np.random.normal\<close>, from the generator of numpy, which \<open>random.seed\<close> does not seed. Two
  runs with the same seeded generator and the same inputs, which differ only in the state of
  numpy's generator, produce different power arrays: for the user alice with the noisy lamp,
  \<open>'total'\<close> is 5 W over the ten seconds in one run and 6 W in the other.
\<close>

theorem noise_not_seeded:
  "result_power ''total'' (main_synthesis 1 False 1 [ex_user ''light''] (\<lambda>_. ex_noisy_appliance)
       (\<lambda>_. 0) (\<lambda>_. 0)) = Some (replicate 10 5 @ replicate 86390 0)
   \<and> result_power ''total'' (main_synthesis 1 False 1 [ex_user ''light''] (\<lambda>_. ex_noisy_appliance)
       (\<lambda>_. 0) (\<lambda>_. 1)) = Some (replicate 10 6 @ replicate 86390 0)"
proof -
  from ex_noisy_run [of 0 0] obtain us st where
    "main_synthesis 1 False 1 [ex_user ''light''] (\<lambda>_. ex_noisy_appliance) (\<lambda>_. 0) (\<lambda>_. 0)
       = Some (Inr (us, st))" "powers st ''total'' = Some (replicate 10 5 @ replicate 86390 0)"
    by auto
  then have a: "result_power ''total'' (main_synthesis 1 False 1 [ex_user ''light'']
       (\<lambda>_. ex_noisy_appliance) (\<lambda>_. 0) (\<lambda>_. 0)) = Some (replicate 10 5 @ replicate 86390 0)"
    by (simp add: result_power_def)
  from ex_noisy_run [of 1 0] obtain us st where
    "main_synthesis 1 False 1 [ex_user ''light''] (\<lambda>_. ex_noisy_appliance) (\<lambda>_. 0) (\<lambda>_. 1)
       = Some (Inr (us, st))" "powers st ''total'' = Some (replicate 10 6 @ replicate 86390 0)"
    by auto
  then have b: "result_power ''total'' (main_synthesis 1 False 1 [ex_user ''light'']
       (\<lambda>_. ex_noisy_appliance) (\<lambda>_. 0) (\<lambda>_. 1)) = Some (replicate 10 6 @ replicate 86390 0)"
    by (simp add: result_power_def)
  from a b show ?thesis by (rule conjI)
qed

end
